theory Spec2Isabelle
  imports Main
begin

section \<open>Strings\<close>

text \<open>
  Paths, file texts and cache keys are modelled as \<^typ>\<open>string\<close>: a list of code units,
  each below 256. The name of a manifest, the one text whose characters the module looks at
  one by one, is modelled as the list of its UTF-16 code units, each an integer (see the
  manifest parser). The operations of \<open>String.prototype\<close> that the skill module calls
  are written out here.
\<close>

definition startsWith :: "string \<Rightarrow> string \<Rightarrow> bool" where
  \<comment> \<open>\<open>s.startsWith(p)\<close>\<close>
  "startsWith s p = (take (length p) s = p)"

primrec includes_str :: "string \<Rightarrow> string \<Rightarrow> bool" where
  \<comment> \<open>\<open>s.includes(p)\<close>: \<open>p\<close> occurs in \<open>s\<close> as a contiguous substring\<close>
  "includes_str [] p = (p = [])"
| "includes_str (c # cs) p = (startsWith (c # cs) p \<or> includes_str cs p)"

primrec split_on :: "char \<Rightarrow> string \<Rightarrow> string list" where
  \<comment> \<open>\<open>s.split(d)\<close> for a one-character separator: never the empty list\<close>
  "split_on d [] = [[]]"
| "split_on d (c # cs) =
     (if c = d then [] # split_on d cs
      else (case split_on d cs of
              s # ss \<Rightarrow> (c # s) # ss
            | [] \<Rightarrow> [[c]]))"

fun join_with :: "string \<Rightarrow> string list \<Rightarrow> string" where
  \<comment> \<open>\<open>xs.join(sep)\<close>\<close>
  "join_with sep [] = []"
| "join_with sep [s] = s"
| "join_with sep (s # t # ss) = s @ sep @ join_with sep (t # ss)"

section \<open>Path normalization of the runtime\<close>

text \<open>
  \<open>normalize\<close> and \<open>join\<close> are imported from \<open>node:path\<close>; they are the runtime's, not the
  repository's. The model is the POSIX variant, as the module splits the result at \<open>/\<close>:
  empty and \<open>.\<close> segments are dropped, a \<open>..\<close> segment removes the segment before it
  (and is kept in a relative path when there is none to remove), a trailing separator is
  kept, and the empty result is written \<open>.\<close>.
\<close>

definition resolve_segment :: "bool \<Rightarrow> string list \<Rightarrow> string \<Rightarrow> string list" where
  \<comment> \<open>one segment against the segments kept so far (innermost first)\<close>
  "resolve_segment allowAboveRoot acc seg =
     (if seg = [] \<or> seg = ''.'' then acc
      else if seg = ''..'' then
        (case acc of
           [] \<Rightarrow> if allowAboveRoot then [''..''] else []
         | t # rest \<Rightarrow>
             if t = ''..'' then (if allowAboveRoot then ''..'' # acc else acc) else rest)
      else seg # acc)"

definition normalizeString :: "string \<Rightarrow> bool \<Rightarrow> string" where
  "normalizeString p allowAboveRoot =
     join_with ''/'' (rev (foldl (resolve_segment allowAboveRoot) [] (split_on CHR ''/'' p)))"

definition normalize_path :: "string \<Rightarrow> string" where
  "normalize_path p =
     (if p = [] then ''.''
      else
        let isAbsolute = (hd p = CHR ''/'');
            trailingSeparator = (last p = CHR ''/'');
            body = normalizeString p (\<not> isAbsolute)
        in if body = [] then
             (if isAbsolute then ''/'' else if trailingSeparator then ''./'' else ''.'')
           else (if isAbsolute then ''/'' else []) @ body
                @ (if trailingSeparator then ''/'' else []))"

definition join_path :: "string \<Rightarrow> string \<Rightarrow> string" where
  \<comment> \<open>\<open>join(a, b)\<close>: the non-empty arguments joined by \<open>/\<close>, then normalized\<close>
  "join_path a b =
     (let parts = filter (\<lambda>s. s \<noteq> []) [a, b]
      in if parts = [] then ''.'' else normalize_path (join_with ''/'' parts))"

section \<open>Path validator\<close>

definition ALLOWED_SKILL_SUBDIRS :: "string list" where
  "ALLOWED_SKILL_SUBDIRS = [''scripts'', ''references'', ''assets'']"

definition SKILL_MAIN_FILE :: string where
  "SKILL_MAIN_FILE = ''SKILL.md''"

datatype validation = Valid | Invalid string

definition validateSkillPath :: "string \<Rightarrow> validation" where
  "validateSkillPath requestedPath =
     (let normalized = normalize_path requestedPath
      in if startsWith requestedPath ''/'' \<or> includes_str requestedPath '':'' then
           Invalid ''Absolute paths not allowed''
         else if includes_str normalized ''..'' then
           Invalid ''Path traversal not allowed''
         else if normalized = SKILL_MAIN_FILE then Valid
         else
           let parts = split_on CHR ''/'' normalized
           in if length parts = 2 \<and> hd parts \<in> set ALLOWED_SKILL_SUBDIRS then Valid
              else Invalid (''Path must be '' @ SKILL_MAIN_FILE @ '' or within: ''
                            @ join_with '', '' ALLOWED_SKILL_SUBDIRS))"

section \<open>Manifest parser\<close>

subsection \<open>Code units and character classes\<close>

text \<open>
  A manifest name is any JavaScript string, so it is a list of UTF-16 code units, written as
  integers (0 to 65535). Once the disallowed characters of a name are replaced, every code unit left is
  one of \<open>a\<close> to \<open>z\<close>, \<open>0\<close> to \<open>9\<close>, \<open>-\<close> and \<open>_\<close>, and the name is written as a
  \<^typ>\<open>string\<close> from there on; \<open>units\<close> and \<open>ascii_text\<close> go from one form to the other.
\<close>

type_synonym code_unit = int

definition units :: "string \<Rightarrow> code_unit list" where
  "units s = map of_char s"

definition ascii_text :: "code_unit list \<Rightarrow> string" where
  "ascii_text us = map char_of us"

definition space_unit :: "code_unit \<Rightarrow> bool" where
  \<comment> \<open>\<open>\s\<close>, and what \<open>trim()\<close> strips: the white space and the line terminators of the
      language\<close>
  "space_unit c =
     (c \<in> {9, 10, 11, 12, 13, 32, 160, 5760, 8232, 8233, 8239, 8287, 12288, 65279}
      \<or> (8192 \<le> c \<and> c \<le> 8202))"

definition digit_unit :: "code_unit \<Rightarrow> bool" where
  "digit_unit c = (48 \<le> c \<and> c \<le> 57)"

definition upper_unit :: "code_unit \<Rightarrow> bool" where
  "upper_unit c = (65 \<le> c \<and> c \<le> 90)"

definition lower_unit :: "code_unit \<Rightarrow> bool" where
  "lower_unit c = (97 \<le> c \<and> c \<le> 122)"

definition sep_unit :: "code_unit \<Rightarrow> bool" where
  \<comment> \<open>the class \<open>[-_]\<close>\<close>
  "sep_unit c = (c = 45 \<or> c = 95)"

definition alnum_unit :: "code_unit \<Rightarrow> bool" where
  \<comment> \<open>the class \<open>[a-zA-Z0-9]\<close>\<close>
  "alnum_unit c = (lower_unit c \<or> upper_unit c \<or> digit_unit c)"

definition lower_alnum_unit :: "code_unit \<Rightarrow> bool" where
  \<comment> \<open>the class \<open>[a-z0-9]\<close>\<close>
  "lower_alnum_unit c = (lower_unit c \<or> digit_unit c)"

definition name_unit :: "code_unit \<Rightarrow> bool" where
  \<comment> \<open>the class \<open>[a-zA-Z0-9-_]\<close>\<close>
  "name_unit c = (lower_unit c \<or> upper_unit c \<or> digit_unit c \<or> sep_unit c)"

definition lower_name_unit :: "code_unit \<Rightarrow> bool" where
  \<comment> \<open>the class \<open>[a-z0-9-_]\<close>\<close>
  "lower_name_unit c = (lower_unit c \<or> digit_unit c \<or> sep_unit c)"

definition is_space :: "char \<Rightarrow> bool" where
  \<comment> \<open>what \<open>trim()\<close> strips from a file text: tab, line feed, vertical tab, form feed,
      carriage return, space and the no-break space\<close>
  "is_space c = ((of_char c :: nat) \<in> {9, 10, 11, 12, 13, 32, 160})"

definition is_digit :: "char \<Rightarrow> bool" where
  "is_digit c = (48 \<le> (of_char c :: nat) \<and> (of_char c :: nat) \<le> 57)"

definition is_upper :: "char \<Rightarrow> bool" where
  "is_upper c = (65 \<le> (of_char c :: nat) \<and> (of_char c :: nat) \<le> 90)"

definition is_lower :: "char \<Rightarrow> bool" where
  "is_lower c = (97 \<le> (of_char c :: nat) \<and> (of_char c :: nat) \<le> 122)"

definition is_sep :: "char \<Rightarrow> bool" where
  \<comment> \<open>the class \<open>[-_]\<close>\<close>
  "is_sep c = (c = CHR ''-'' \<or> c = CHR ''_'')"

definition is_name_char :: "char \<Rightarrow> bool" where
  \<comment> \<open>the class \<open>[a-zA-Z0-9-_]\<close>\<close>
  "is_name_char c = (is_lower c \<or> is_upper c \<or> is_digit c \<or> is_sep c)"

definition is_lower_name_char :: "char \<Rightarrow> bool" where
  \<comment> \<open>the class \<open>[a-z0-9-_]\<close>\<close>
  "is_lower_name_char c = (is_lower c \<or> is_digit c \<or> is_sep c)"

definition trim :: "string \<Rightarrow> string" where
  \<comment> \<open>\<open>s.trim()\<close> of a file text\<close>
  "trim s = rev (dropWhile is_space (rev (dropWhile is_space s)))"

definition trim_units :: "code_unit list \<Rightarrow> code_unit list" where
  \<comment> \<open>\<open>s.trim()\<close> of a name\<close>
  "trim_units s = rev (dropWhile space_unit (rev (dropWhile space_unit s)))"

subsection \<open>Lower-casing\<close>

text \<open>
  \<open>String.prototype.toLowerCase\<close> is the runtime's. It maps an ASCII code unit on its own:
  \<open>A\<close> to \<open>Z\<close> to \<open>a\<close> to \<open>z\<close>, any other to itself. What a code unit above ASCII
  contributes to the result is the Unicode case mapping: it may be several code units (or
  none, for the second half of a surrogate pair), it may depend on the rest of the string,
  and it may be ASCII (the Kelvin sign gives \<open>k\<close>, the capital I with a dot above gives \<open>i\<close>
  and a combining dot). That part is a parameter of the model: a function of the whole
  string and the index of the code unit.
\<close>

type_synonym lower_ext = "code_unit list \<Rightarrow> nat \<Rightarrow> code_unit list"

primrec toLowerCase_from ::
  "lower_ext \<Rightarrow> code_unit list \<Rightarrow> nat \<Rightarrow> code_unit list \<Rightarrow> code_unit list" where
  \<comment> \<open>the code units from index \<open>i\<close> of \<open>s\<close> on, lower-cased\<close>
  "toLowerCase_from ext s i [] = []"
| "toLowerCase_from ext s i (c # cs) =
     (if c < 128 then [if upper_unit c then c + 32 else c] else ext s i)
     @ toLowerCase_from ext s (Suc i) cs"

definition toLowerCase :: "lower_ext \<Rightarrow> code_unit list \<Rightarrow> code_unit list" where
  "toLowerCase ext s = toLowerCase_from ext s 0 s"

subsection \<open>The replacements of name normalization\<close>

definition name_ok :: "code_unit list \<Rightarrow> bool" where
  \<comment> \<open>\<open>/^[a-zA-Z0-9-_]+$/.test(s)\<close>\<close>
  "name_ok s = (s \<noteq> [] \<and> list_all name_unit s)"

function replace_ws_runs :: "code_unit list \<Rightarrow> code_unit list" where
  \<comment> \<open>\<open>.replace(/\s+/g, '-')\<close>: every maximal run of white space becomes one dash\<close>
  "replace_ws_runs [] = []"
| "replace_ws_runs (c # cs) =
     (if space_unit c then 45 # replace_ws_runs (dropWhile space_unit cs)
      else c # replace_ws_runs cs)"
  by pat_completeness auto
termination
  by (relation "measure length") (auto simp: length_dropWhile_le less_Suc_eq_le)

definition replace_disallowed :: "code_unit list \<Rightarrow> string" where
  \<comment> \<open>\<open>.replace(/[^a-z0-9-_]/g, '_')\<close>; the code units kept are ASCII, and so is \<open>_\<close>\<close>
  "replace_disallowed s = map (\<lambda>c. if lower_name_unit c then char_of c else CHR ''_'') s"

function collapse_run :: "char \<Rightarrow> string \<Rightarrow> string" where
  \<comment> \<open>\<open>.replace(/a[-_]+/g, 'a')\<close>: the character \<open>a\<close> followed by one or more of \<open>[-_]\<close>
      (as many as there are) becomes \<open>a\<close>; the search goes on after the match\<close>
  "collapse_run a [] = []"
| "collapse_run a (c # cs) =
     (if c = a \<and> cs \<noteq> [] \<and> is_sep (hd cs) then a # collapse_run a (dropWhile is_sep cs)
      else c # collapse_run a cs)"
  by pat_completeness auto
termination
  by (relation "measure (\<lambda>(a, s). length s)") (auto simp: length_dropWhile_le less_Suc_eq_le)

definition trim_seps :: "string \<Rightarrow> string" where
  \<comment> \<open>\<open>.replace(/(^[-_]+)|([-_]+$)/g, '')\<close>: the leading and the trailing run of \<open>[-_]\<close>\<close>
  "trim_seps s = rev (dropWhile is_sep (rev (dropWhile is_sep s)))"

definition collapse_seps :: "string \<Rightarrow> string" where
  \<comment> \<open>the two collapsing replacements, in the order of the source\<close>
  "collapse_seps s = collapse_run CHR ''_'' (collapse_run CHR ''-'' s)"

definition normalize_name :: "lower_ext \<Rightarrow> code_unit list \<Rightarrow> string" where
  "normalize_name ext n =
     trim_seps (collapse_seps (replace_disallowed (replace_ws_runs (toLowerCase ext n))))"

definition registered_name :: "lower_ext \<Rightarrow> code_unit list \<Rightarrow> string" where
  \<comment> \<open>the name that \<open>parseSkillFile\<close> leaves in the manifest; a name that passes the
      pattern is ASCII and is kept as it is\<close>
  "registered_name ext n = (if \<not> name_ok n then normalize_name ext n else ascii_text n)"

subsection \<open>Front matter and its validation\<close>

type_synonym metadata = "(string \<times> string) list"

datatype metadata_field = NoMetadata | BadMetadata | Metadata metadata

record fm_data =
  fm_name :: "code_unit list option"    \<comment> \<open>\<open>None\<close>: absent, or not a string\<close>
  fm_description :: "string option"
  fm_metadata :: metadata_field

text \<open>
  The manifest, with its name as the validation returns it (code units) and as
  \<open>parseSkillFile\<close> returns it (ASCII text).
\<close>

record 'n SkillMatter =
  sm_name :: 'n
  sm_description :: string
  sm_metadata :: "metadata option"

datatype error =
    MatterError                           \<comment> \<open>the front-matter library throws\<close>
  | ValidationError                       \<comment> \<open>\<open>zSkillMatter.parse\<close> throws\<close>
  | SkillNotFound string                  \<comment> \<open>\<open>Skill not found: <name>\<close>\<close>
  | InvalidPath string string             \<comment> \<open>\<open>Invalid path '<path>': <reason>\<close>\<close>
  | FileNotFound string string "string list"
                                          \<comment> \<open>\<open>File '<path>' not found in skill '<name>'. ...\<close>\<close>
  | ReadFailed string                     \<comment> \<open>\<open>Failed to read skill content: <key>\<close>\<close>
  | Unexpected                            \<comment> \<open>any other exception\<close>

definition zSkillMatter_parse :: "fm_data \<Rightarrow> error + (code_unit list) SkillMatter" where
  "zSkillMatter_parse d =
     (case fm_name d of
        None \<Rightarrow> Inl ValidationError
      | Some n \<Rightarrow>
          if length (trim_units n) < 1 then Inl ValidationError
          else (case fm_description d of
                  None \<Rightarrow> Inl ValidationError
                | Some ds \<Rightarrow>
                    (case fm_metadata d of
                       BadMetadata \<Rightarrow> Inl ValidationError
                     | NoMetadata \<Rightarrow>
                         Inr \<lparr>sm_name = trim_units n, sm_description = ds,
                              sm_metadata = None\<rparr>
                     | Metadata m \<Rightarrow>
                         Inr \<lparr>sm_name = trim_units n, sm_description = ds,
                              sm_metadata = Some m\<rparr>)))"

text \<open>
  The front-matter library (\<open>gray-matter\<close>) is a parameter of the model: a function from the
  file text to the parsed data and the body, or \<open>None\<close> where it throws.
\<close>

type_synonym matter_fn = "string \<Rightarrow> (fm_data \<times> string) option"

definition parseSkillFile ::
  "lower_ext \<Rightarrow> matter_fn \<Rightarrow> string \<Rightarrow> error + (string SkillMatter \<times> string)" where
  "parseSkillFile ext matter fileContent =
     (case matter fileContent of
        None \<Rightarrow> Inl MatterError
      | Some (d, content) \<Rightarrow>
          (case zSkillMatter_parse d of
             Inl e \<Rightarrow> Inl e
           | Inr skillMatter \<Rightarrow>
               Inr (\<lparr>sm_name = registered_name ext (sm_name skillMatter),
                     sm_description = sm_description skillMatter,
                     sm_metadata = sm_metadata skillMatter\<rparr>,
                    trim content)))"

section \<open>Storage, skills and the state of the module\<close>

datatype entry_kind = File | Directory | Other

record dirent =
  d_name :: string
  d_kind :: entry_kind      \<comment> \<open>what \<open>isFile()\<close> and \<open>isDirectory()\<close> answer\<close>

text \<open>
  What the module reads: the location of the skills root, the two storage operations
  (\<open>None\<close> where the call throws), the front-matter library, and the case mapping of the
  runtime above ASCII.
\<close>

record env =
  skillsDir :: string
  readdir :: "string \<Rightarrow> dirent list option"
  readFile :: "string \<Rightarrow> string option"
  matter :: matter_fn
  unicode_lower :: lower_ext

record Skill =
  path :: string
  name :: string
  description :: string
  metadata :: "metadata option"
  availableFiles :: "string list"

type_synonym snapshot = "string \<rightharpoonup> Skill"

text \<open>
  The trace records, in order, every storage access and every access to the content cache.
  It is not a variable of the module: it is what a counter placed on storage would see.
\<close>

datatype event =
    ReadDir string | ReadFile string | CacheClear | CacheGet string | CacheSet string

record state =
  skillContentCache :: "string \<rightharpoonup> string"
  skillMapPromise :: "snapshot option"    \<comment> \<open>\<open>None\<close> is \<open>null\<close>; a stored promise has resolved\<close>
  trace :: "event list"

definition emit :: "event list \<Rightarrow> state \<Rightarrow> state" where
  "emit es st = st\<lparr>trace := trace st @ es\<rparr>"

definition is_storage_access :: "event \<Rightarrow> bool" where
  "is_storage_access e = (case e of ReadDir _ \<Rightarrow> True | ReadFile _ \<Rightarrow> True | _ \<Rightarrow> False)"

definition storage_reads :: "state \<Rightarrow> nat" where
  "storage_reads st = length (filter is_storage_access (trace st))"

section \<open>Directory scanner\<close>

definition scan_subdir :: "env \<Rightarrow> string \<Rightarrow> string \<Rightarrow> string list" where
  \<comment> \<open>the body of the loop over the allowed subdirectories\<close>
  "scan_subdir e skillPath subdir =
     (case readdir e (join_path skillPath subdir) of
        None \<Rightarrow> []
      | Some entries \<Rightarrow>
          map (\<lambda>entry. subdir @ ''/'' @ d_name entry)
              (filter (\<lambda>entry. d_kind entry = File) entries))"

definition scanSkillDirectory :: "env \<Rightarrow> string \<Rightarrow> state \<Rightarrow> string list \<times> state" where
  "scanSkillDirectory e skillPath st =
     (SKILL_MAIN_FILE # concat (map (scan_subdir e skillPath) ALLOWED_SKILL_SUBDIRS),
      emit (map (\<lambda>subdir. ReadDir (join_path skillPath subdir)) ALLOWED_SKILL_SUBDIRS) st)"

section \<open>Loading\<close>

definition loadLocalPath :: "env \<Rightarrow> string \<Rightarrow> snapshot \<times> state \<Rightarrow> snapshot \<times> state" where
  "loadLocalPath e p acc =
     (let (skills, st) = acc;
          skillPath = join_path p SKILL_MAIN_FILE;
          st1 = emit [ReadFile skillPath] st
      in case readFile e skillPath of
           None \<Rightarrow> (skills, st1)
         | Some fileContent \<Rightarrow>
             (case parseSkillFile (unicode_lower e) (matter e) fileContent of
                Inl err \<Rightarrow> (skills, st1)
              | Inr (m, content) \<Rightarrow>
                  if skills (sm_name m) \<noteq> None then (skills, st1)
                  else
                    let (files, st2) = scanSkillDirectory e p st1;
                        key = sm_name m @ ''/'' @ SKILL_MAIN_FILE
                    in (skills(sm_name m \<mapsto>
                          \<lparr>path = p, name = sm_name m, description = sm_description m,
                           metadata = sm_metadata m, availableFiles = files\<rparr>),
                        emit [CacheSet key]
                          (st2\<lparr>skillContentCache := (skillContentCache st2)(key \<mapsto> content)\<rparr>))))"

primrec load_entries :: "env \<Rightarrow> dirent list \<Rightarrow> snapshot \<times> state \<Rightarrow> snapshot \<times> state" where
  \<comment> \<open>the loop over the entries of the skills root\<close>
  "load_entries e [] acc = acc"
| "load_entries e (entry # entries) acc =
     (if d_kind entry \<noteq> Directory then load_entries e entries acc
      else load_entries e entries
             (loadLocalPath e (join_path (skillsDir e) (d_name entry)) acc))"

definition doLoadSkills :: "env \<Rightarrow> state \<Rightarrow> (error + snapshot) \<times> state" where
  "doLoadSkills e st =
     (let st0 = emit [CacheClear, ReadDir (skillsDir e)] (st\<lparr>skillContentCache := Map.empty\<rparr>)
      in case readdir e (skillsDir e) of
           None \<Rightarrow> (Inr Map.empty, st0)
         | Some dirEntries \<Rightarrow>
             (let (skills, st1) = load_entries e dirEntries (Map.empty, st0)
              in (Inr skills, st1)))"

text \<open>
  \<open>loadSkills\<close> wraps the load pass in a handler for whatever the pass throws. Every failure
  inside \<open>doLoadSkills\<close> is caught there, so the handler is written over an arbitrary pass and
  \<open>loadSkills\<close> is its instance at \<open>doLoadSkills\<close>. Calls run one after the other: a call
  returns the value its promise resolves to.
\<close>

type_synonym load_pass = "state \<Rightarrow> (error + snapshot) \<times> state"

definition loadSkills_with :: "load_pass \<Rightarrow> bool \<Rightarrow> state \<Rightarrow> (error + snapshot) \<times> state" where
  "loadSkills_with pass force st =
     (case skillMapPromise st of
        Some m \<Rightarrow>
          if \<not> force then (Inr m, st)
          else (case pass st of
                  (Inr m', st1) \<Rightarrow> (Inr m', st1\<lparr>skillMapPromise := Some m'\<rparr>)
                | (Inl err, st1) \<Rightarrow> (Inr Map.empty, st1\<lparr>skillMapPromise := None\<rparr>))
      | None \<Rightarrow>
          (case pass st of
             (Inr m', st1) \<Rightarrow> (Inr m', st1\<lparr>skillMapPromise := Some m'\<rparr>)
           | (Inl err, st1) \<Rightarrow> (Inr Map.empty, st1\<lparr>skillMapPromise := None\<rparr>)))"

definition loadSkills :: "env \<Rightarrow> bool \<Rightarrow> state \<Rightarrow> (error + snapshot) \<times> state" where
  "loadSkills e force st = loadSkills_with (doLoadSkills e) force st"

section \<open>Content resolver\<close>

definition read_through :: "env \<Rightarrow> Skill \<Rightarrow> string \<Rightarrow> string \<Rightarrow> state \<Rightarrow> (error + string) \<times> state" where
  \<comment> \<open>the last block of \<open>viewSkillContent\<close>: read from the filesystem and fill the cache\<close>
  "read_through e skill targetPath cacheKey st =
     (let fullPath = join_path (path skill) targetPath;
          st1 = emit [ReadFile fullPath] st
      in case readFile e fullPath of
           None \<Rightarrow> (Inl (ReadFailed cacheKey), st1)
         | Some content \<Rightarrow>
             (Inr content,
              emit [CacheSet cacheKey]
                (st1\<lparr>skillContentCache := (skillContentCache st1)(cacheKey \<mapsto> content)\<rparr>)))"

definition viewSkillContent :: "env \<Rightarrow> string \<Rightarrow> string \<Rightarrow> state \<Rightarrow> (error + string) \<times> state" where
  "viewSkillContent e n targetPath st =
     (case loadSkills e False st of
        (Inl err, st1) \<Rightarrow> (Inl err, st1)
      | (Inr skillsMap, st1) \<Rightarrow>
          (case skillsMap n of
             None \<Rightarrow> (Inl (SkillNotFound n), st1)
           | Some skill \<Rightarrow>
               (case validateSkillPath targetPath of
                  Invalid reason \<Rightarrow> (Inl (InvalidPath targetPath reason), st1)
                | Valid \<Rightarrow>
                    if targetPath \<notin> set (availableFiles skill) then
                      (Inl (FileNotFound targetPath n (availableFiles skill)), st1)
                    else
                      let cacheKey = n @ ''/'' @ targetPath;
                          st2 = emit [CacheGet cacheKey] st1
                      in (case skillContentCache st2 cacheKey of
                            None \<Rightarrow> read_through e skill targetPath cacheKey st2
                          | Some cached \<Rightarrow>
                              \<comment> \<open>\<open>if (cached)\<close>: the empty string is falsy\<close>
                              if cached \<noteq> [] then (Inr cached, st2)
                              else read_through e skill targetPath cacheKey st2))))"

section \<open>What one directory contributes\<close>

text \<open>
  Three abbreviations for stating what a load pass does with a directory: the manifest and
  body that the first two statements of \<open>loadLocalPath\<close> obtain from it (\<open>None\<close> where the
  read or the parse throws), the record that is registered for it, and the cache key of a
  file of a skill.
\<close>

definition manifest_of :: "env \<Rightarrow> string \<Rightarrow> (string SkillMatter \<times> string) option" where
  "manifest_of e p =
     (case readFile e (join_path p SKILL_MAIN_FILE) of
        None \<Rightarrow> None
      | Some fileContent \<Rightarrow>
          (case parseSkillFile (unicode_lower e) (matter e) fileContent of
             Inl err \<Rightarrow> None
           | Inr r \<Rightarrow> Some r))"

definition yields :: "env \<Rightarrow> string \<Rightarrow> string \<Rightarrow> bool" where
  \<comment> \<open>the directory \<open>p\<close> holds a manifest whose final name is \<open>n\<close>\<close>
  "yields e n p = (case manifest_of e p of None \<Rightarrow> False | Some (m, content) \<Rightarrow> sm_name m = n)"

definition skill_of :: "env \<Rightarrow> string \<Rightarrow> string SkillMatter \<Rightarrow> Skill" where
  "skill_of e p m =
     \<lparr>path = p, name = sm_name m, description = sm_description m, metadata = sm_metadata m,
      availableFiles = SKILL_MAIN_FILE # concat (map (scan_subdir e p) ALLOWED_SKILL_SUBDIRS)\<rparr>"

definition cache_key :: "string \<Rightarrow> string \<Rightarrow> string" where
  "cache_key n p = n @ ''/'' @ p"

definition skill_dirs :: "env \<Rightarrow> dirent list \<Rightarrow> string list" where
  \<comment> \<open>the directories that the loop of \<open>doLoadSkills\<close> visits, in its order\<close>
  "skill_dirs e entries =
     map (\<lambda>entry. join_path (skillsDir e) (d_name entry))
         (filter (\<lambda>entry. d_kind entry = Directory) entries)"

definition registry_ok :: "env \<Rightarrow> snapshot \<Rightarrow> (string \<rightharpoonup> string) \<Rightarrow> bool" where
  \<comment> \<open>what holds of the skills registered so far and of the content cache, all through a
      load pass: one cache key per registered name, holding the body of the manifest of the
      directory that the skill was registered from\<close>
  "registry_ok e skills cache =
     (dom cache = (\<lambda>n. cache_key n SKILL_MAIN_FILE) ` dom skills
      \<and> (\<forall>n sk. skills n = Some sk \<longrightarrow>
            (\<exists>m content. manifest_of e (path sk) = Some (m, content) \<and> sm_name m = n
               \<and> sk = skill_of e (path sk) m
               \<and> cache (cache_key n SKILL_MAIN_FILE) = Some content)))"

section \<open>A small skills tree\<close>

text \<open>
  Three skill directories under \<open>/skills\<close>: \<open>a\<close> and \<open>b\<close> declare names that normalize to the
  same name, \<open>c\<close> has a manifest and no body; \<open>a\<close> has two scripts, one of them empty.
\<close>

definition demo_raw_a :: string where
  "demo_raw_a = ''--- name: Demo Skill --- Hello from a ''"

definition demo_raw_b :: string where
  "demo_raw_b = ''--- name: demo-skill --- Hello from b''"

definition demo_raw_c :: string where
  "demo_raw_c = ''--- name: bare ---  ''"

definition demo_unicode_lower :: lower_ext where
  \<comment> \<open>a part of the Unicode mapping: the Kelvin sign, the capital I with a dot above, the
      capital letters of Latin-1; any other code unit is kept\<close>
  "demo_unicode_lower s i =
     (let c = s ! i
      in if c = 8490 then [107]
         else if c = 304 then [105, 775]
         else if 192 \<le> c \<and> c \<le> 222 \<and> c \<noteq> 215 then [c + 32]
         else [c])"

definition demo_matter :: matter_fn where
  "demo_matter text =
     (if text = demo_raw_a then
        Some (\<lparr>fm_name = Some (units ''Demo Skill''), fm_description = Some ''first'',
               fm_metadata = NoMetadata\<rparr>, '' Hello from a '')
      else if text = demo_raw_b then
        Some (\<lparr>fm_name = Some (units ''demo-skill''), fm_description = Some ''second'',
               fm_metadata = NoMetadata\<rparr>, '' Hello from b'')
      else if text = demo_raw_c then
        Some (\<lparr>fm_name = Some (units ''bare''), fm_description = Some ''no body'',
               fm_metadata = NoMetadata\<rparr>, ''  '')
      else None)"

definition demo_entries :: "dirent list" where
  "demo_entries =
     [\<lparr>d_name = ''README.md'', d_kind = File\<rparr>, \<lparr>d_name = ''a'', d_kind = Directory\<rparr>,
      \<lparr>d_name = ''b'', d_kind = Directory\<rparr>, \<lparr>d_name = ''c'', d_kind = Directory\<rparr>]"

definition demo_readdir :: "string \<Rightarrow> dirent list option" where
  "demo_readdir p =
     (if p = ''/skills'' then Some demo_entries
      else if p = ''/skills/a/scripts'' then
        Some [\<lparr>d_name = ''empty.sql'', d_kind = File\<rparr>, \<lparr>d_name = ''q.sql'', d_kind = File\<rparr>,
              \<lparr>d_name = ''sub'', d_kind = Directory\<rparr>]
      else None)"

definition demo_readFile :: "string \<Rightarrow> string \<Rightarrow> string option" where
  \<comment> \<open>the first argument is the text that \<open>scripts/empty.sql\<close> of skill \<open>a\<close> holds\<close>
  "demo_readFile script p =
     (if p = ''/skills/a/SKILL.md'' then Some demo_raw_a
      else if p = ''/skills/b/SKILL.md'' then Some demo_raw_b
      else if p = ''/skills/c/SKILL.md'' then Some demo_raw_c
      else if p = ''/skills/a/scripts/empty.sql'' then Some script
      else if p = ''/skills/a/scripts/q.sql'' then Some ''select 1''
      else None)"

definition demo_env :: "string \<Rightarrow> env" where
  "demo_env script =
     \<lparr>skillsDir = ''/skills'', readdir = demo_readdir, readFile = demo_readFile script,
      matter = demo_matter, unicode_lower = demo_unicode_lower\<rparr>"

definition unreadable_env :: env where
  \<comment> \<open>the skills root cannot be enumerated\<close>
  "unreadable_env =
     \<lparr>skillsDir = ''/skills'', readdir = (\<lambda>p. None), readFile = (\<lambda>p. None),
      matter = demo_matter, unicode_lower = demo_unicode_lower\<rparr>"

definition init_state :: state where
  \<comment> \<open>the module before its first load\<close>
  "init_state = \<lparr>skillContentCache = Map.empty, skillMapPromise = None, trace = []\<rparr>"

definition failing_pass :: load_pass where
  \<comment> \<open>a load pass that throws\<close>
  "failing_pass st = (Inl Unexpected, st)"

section \<open>Properties of the path validator\<close>

text \<open>
  C1. No path that starts with \<open>/\<close>, or contains \<open>:\<close>, or whose normalized form contains
  \<open>..\<close> (anywhere, as a substring) is accepted. The validator rejects
  \<open>../../etc/passwd\<close>, \<open>/etc/passwd\<close> and \<open>scripts/../../../x\<close>; it accepts \<open>SKILL.md\<close>,
  \<open>scripts/a.sql\<close>, \<open>references/b.md\<close> and \<open>assets/c.png\<close>; it rejects the three-segment
  path \<open>scripts/sub/d.sql\<close>.
\<close>

theorem validateSkillPath_examples_and_guards:
  "(\<forall>p. startsWith p ''/'' \<or> includes_str p '':'' \<or> includes_str (normalize_path p) ''..''
        \<longrightarrow> validateSkillPath p \<noteq> Valid)
   \<and> validateSkillPath ''../../etc/passwd'' = Invalid ''Path traversal not allowed''
   \<and> validateSkillPath ''/etc/passwd'' = Invalid ''Absolute paths not allowed''
   \<and> validateSkillPath ''scripts/../../../x'' = Invalid ''Path traversal not allowed''
   \<and> validateSkillPath ''SKILL.md'' = Valid
   \<and> validateSkillPath ''scripts/a.sql'' = Valid
   \<and> validateSkillPath ''references/b.md'' = Valid
   \<and> validateSkillPath ''assets/c.png'' = Valid
   \<and> length (split_on CHR ''/'' (normalize_path ''scripts/sub/d.sql'')) = 3
   \<and> validateSkillPath ''scripts/sub/d.sql''
       = Invalid ''Path must be SKILL.md or within: scripts, references, assets''"
proof (intro conjI allI impI)
  fix p
  assume "startsWith p ''/'' \<or> includes_str p '':'' \<or> includes_str (normalize_path p) ''..''"
  then show "validateSkillPath p \<noteq> Valid"
    by (auto simp: validateSkillPath_def Let_def)
qed code_simp+

theorem validateSkillPath_examples_and_guards_witness:
  "(startsWith ''a/../../b:c'' ''/'' \<or> includes_str ''a/../../b:c'' '':''
      \<or> includes_str (normalize_path ''a/../../b:c'') ''..'')
   \<and> validateSkillPath ''a/../../b:c'' \<noteq> Valid"
proof -
  have h: "startsWith ''a/../../b:c'' ''/'' \<or> includes_str ''a/../../b:c'' '':''
      \<or> includes_str (normalize_path ''a/../../b:c'') ''..''"
    by code_simp
  from validateSkillPath_examples_and_guards [THEN conjunct1, rule_format, OF h] h
  show ?thesis by (rule conjI [rotated])
qed

text \<open>
  C2, as stated, fails: \<open>scripts/a..b\<close> is relative, has no colon, normalizes to the two
  segments \<open>scripts\<close> and \<open>a..b\<close>, neither of which is the parent-directory segment, and
  is rejected, because the validator looks for \<open>..\<close> anywhere in the normalized text.
\<close>

theorem validateSkillPath_dotdot_in_filename_counterexample:
  "\<not> startsWith ''scripts/a..b'' ''/''
   \<and> \<not> includes_str ''scripts/a..b'' '':''
   \<and> split_on CHR ''/'' (normalize_path ''scripts/a..b'') = [''scripts'', ''a..b'']
   \<and> length (split_on CHR ''/'' (normalize_path ''scripts/a..b'')) = 2
   \<and> hd (split_on CHR ''/'' (normalize_path ''scripts/a..b'')) \<in> set ALLOWED_SKILL_SUBDIRS
   \<and> ''..'' \<notin> set (split_on CHR ''/'' (normalize_path ''scripts/a..b''))
   \<and> validateSkillPath ''scripts/a..b'' = Invalid ''Path traversal not allowed''"
  by code_simp

text \<open>
  C2, amended: every path that does not start with \<open>/\<close>, contains no \<open>:\<close>, whose normalized
  form does not contain the two characters \<open>..\<close> anywhere, has exactly two segments and has
  an allowed subdirectory as its first segment, is accepted; nothing else is asked of the
  second segment.
\<close>

theorem validateSkillPath_accepts_two_segments:
  assumes "\<not> startsWith p ''/''" and "\<not> includes_str p '':''"
    and "\<not> includes_str (normalize_path p) ''..''"
    and "length (split_on CHR ''/'' (normalize_path p)) = 2"
    and "hd (split_on CHR ''/'' (normalize_path p)) \<in> set ALLOWED_SKILL_SUBDIRS"
  shows "validateSkillPath p = Valid"
  using assms by (simp add: validateSkillPath_def Let_def)

theorem validateSkillPath_accepts_two_segments_witness:
  "\<not> startsWith ''references/any name?.md'' ''/''
   \<and> \<not> includes_str ''references/any name?.md'' '':''
   \<and> \<not> includes_str (normalize_path ''references/any name?.md'') ''..''
   \<and> length (split_on CHR ''/'' (normalize_path ''references/any name?.md'')) = 2
   \<and> hd (split_on CHR ''/'' (normalize_path ''references/any name?.md''))
       \<in> set ALLOWED_SKILL_SUBDIRS
   \<and> validateSkillPath ''references/any name?.md'' = Valid"
proof -
  have h: "\<not> startsWith ''references/any name?.md'' ''/''"
    "\<not> includes_str ''references/any name?.md'' '':''"
    "\<not> includes_str (normalize_path ''references/any name?.md'') ''..''"
    "length (split_on CHR ''/'' (normalize_path ''references/any name?.md'')) = 2"
    "hd (split_on CHR ''/'' (normalize_path ''references/any name?.md''))
       \<in> set ALLOWED_SKILL_SUBDIRS"
    by code_simp+
  from validateSkillPath_accepts_two_segments [OF h] h show ?thesis by (intro conjI)
qed

section \<open>Properties of name normalization\<close>

subsection \<open>Lists\<close>

lemma dropWhile_append_boundary:
  "ys = [] \<or> \<not> P (hd ys) \<Longrightarrow> dropWhile P (xs @ ys) = dropWhile P xs @ ys"
  by (induction xs) (cases ys; auto)+

lemma last_dropWhile:
  "dropWhile P xs \<noteq> [] \<Longrightarrow> last (dropWhile P xs) = last xs"
  by (induction xs) (auto split: if_splits)

lemma filter_not_dropWhile:
  "filter (\<lambda>x. \<not> P x) (dropWhile P xs) = filter (\<lambda>x. \<not> P x) xs"
  by (induction xs) auto

lemma dropWhile_all: "list_all P xs \<Longrightarrow> dropWhile P xs = []"
  by (induction xs) auto

lemma list_all_dropWhile: "list_all Q xs \<Longrightarrow> list_all Q (dropWhile P xs)"
  by (induction xs) auto

subsection \<open>Collapsing one run\<close>

lemma collapse_run_Nil_iff [simp]: "collapse_run a s = [] \<longleftrightarrow> s = []"
  by (cases s) auto

lemma hd_collapse_run: "s \<noteq> [] \<Longrightarrow> hd (collapse_run a s) = hd s"
  by (cases s) auto

lemma list_all_collapse_run:
  "list_all Q s \<Longrightarrow> Q a \<Longrightarrow> list_all Q (collapse_run a s)"
  by (induction a s rule: collapse_run.induct) (auto simp: list_all_dropWhile)

lemma filter_collapse_run:
  "is_sep a \<Longrightarrow> filter (\<lambda>x. \<not> is_sep x) (collapse_run a s) = filter (\<lambda>x. \<not> is_sep x) s"
proof (induction a s rule: collapse_run.induct)
  case (1 a)
  then show ?case by simp
next
  case (2 a c cs)
  then show ?case
    using filter_not_dropWhile [of is_sep cs] by auto
qed

lemma last_collapse_run:
  "s \<noteq> [] \<Longrightarrow> \<not> is_sep (last s) \<Longrightarrow> last (collapse_run a s) = last s"
proof (induction a s rule: collapse_run.induct)
  case (1 a)
  then show ?case by simp
next
  case (2 a c cs)
  show ?case
  proof (cases "c = a \<and> cs \<noteq> [] \<and> is_sep (hd cs)")
    case True
    from True 2(4) have "\<not> is_sep (last cs)" by simp
    moreover from True have "last cs \<in> set cs" by simp
    ultimately have ne: "dropWhile is_sep cs \<noteq> []"
      unfolding dropWhile_eq_Nil_conv by blast
    have l: "last (dropWhile is_sep cs) = last cs"
      using ne by (rule last_dropWhile)
    from True 2(4) have "\<not> is_sep (last (dropWhile is_sep cs))"
      using l by simp
    with 2(1) True ne have "last (collapse_run a (dropWhile is_sep cs)) = last (dropWhile is_sep cs)"
      by simp
    with True ne l show ?thesis by auto
  next
    case False
    show ?thesis
    proof (cases "cs = []")
      case True
      then show ?thesis by simp
    next
      case ne: False
      have eq: "collapse_run a (c # cs) = c # collapse_run a cs"
        by (simp only: collapse_run.simps False if_False)
      from ne 2(4) have "\<not> is_sep (last cs)" by simp
      with 2(2) False ne have "last (collapse_run a cs) = last cs" by simp
      with ne show ?thesis unfolding eq by simp
    qed
  qed
qed

lemma collapse_run_append_right:
  "ys = [] \<or> \<not> is_sep (hd ys) \<Longrightarrow>
   collapse_run a (xs @ ys) = collapse_run a xs @ collapse_run a ys"
proof (induction a xs rule: collapse_run.induct)
  case (1 a)
  then show ?case by simp
next
  case (2 a c cs)
  show ?case
  proof (cases "c = a \<and> cs \<noteq> [] \<and> is_sep (hd cs)")
    case True
    with 2(1) 2(3) have "collapse_run a (dropWhile is_sep cs @ ys)
        = collapse_run a (dropWhile is_sep cs) @ collapse_run a ys"
      by simp
    with True 2(3) show ?thesis
      by (simp add: dropWhile_append_boundary)
  next
    case False
    with 2(2) 2(3) have ih: "collapse_run a (cs @ ys) = collapse_run a cs @ collapse_run a ys"
      by simp
    show ?thesis
    proof (cases "cs = []")
      case True
      with 2(3) show ?thesis by (cases ys) auto
    next
      case ne: False
      with False ih show ?thesis by auto
    qed
  qed
qed

lemma collapse_run_append_left:
  "is_sep a \<Longrightarrow> xs = [] \<or> \<not> is_sep (last xs) \<Longrightarrow>
   collapse_run a (xs @ ys) = collapse_run a xs @ collapse_run a ys"
proof (induction a xs rule: collapse_run.induct)
  case (1 a)
  then show ?case by simp
next
  case (2 a c cs)
  from 2(4) have lastc: "\<not> is_sep (last (c # cs))" by simp
  show ?case
  proof (cases "c = a \<and> cs \<noteq> [] \<and> is_sep (hd cs)")
    case True
    with lastc have nl: "\<not> is_sep (last cs)" by simp
    with True have ex: "\<exists>x\<in>set cs. \<not> is_sep x" using last_in_set by blast
    then have ne: "dropWhile is_sep cs \<noteq> []"
      unfolding dropWhile_eq_Nil_conv by blast
    have "last (dropWhile is_sep cs) = last cs" using ne by (rule last_dropWhile)
    with nl have "\<not> is_sep (last (dropWhile is_sep cs))" by simp
    with 2(1) 2(3) True have "collapse_run a (dropWhile is_sep cs @ ys)
        = collapse_run a (dropWhile is_sep cs) @ collapse_run a ys"
      by simp
    moreover from ex have "dropWhile is_sep (cs @ ys) = dropWhile is_sep cs @ ys"
      by (auto intro: dropWhile_append1)
    ultimately show ?thesis using True by simp
  next
    case False
    show ?thesis
    proof (cases "cs = []")
      case True
      with lastc 2(3) have "c \<noteq> a" by auto
      with True show ?thesis by simp
    next
      case ne: False
      with lastc have "\<not> is_sep (last cs)" by simp
      with 2(2) 2(3) False have "collapse_run a (cs @ ys) = collapse_run a cs @ collapse_run a ys"
        by simp
      with False ne show ?thesis by auto
    qed
  qed
qed

lemma is_sep_dash [simp]: "is_sep CHR ''-''"
  by (simp add: is_sep_def)

lemma is_sep_underscore [simp]: "is_sep CHR ''_''"
  by (simp add: is_sep_def)

lemma collapse_seps_all_sep:
  assumes "run \<noteq> []" and "list_all is_sep run"
  shows "collapse_seps run = [hd run]"
proof -
  from assms obtain c cs where run: "run = c # cs" and c: "is_sep c" and cs: "list_all is_sep cs"
    by (cases run) auto
  have dw: "dropWhile is_sep cs = []" using cs by (rule dropWhile_all)
  show ?thesis
  proof (cases "c = CHR ''-''")
    case True
    have "collapse_run CHR ''-'' run = ''-''"
      using True run cs dw by (cases cs) auto
    then show ?thesis using True run by (simp add: collapse_seps_def)
  next
    case False
    with c have cu: "c = CHR ''_''" by (simp add: is_sep_def)
    define t where "t = collapse_run CHR ''-'' cs"
    have t: "list_all is_sep t"
      unfolding t_def using cs by (rule list_all_collapse_run) simp
    have "collapse_run CHR ''-'' run = CHR ''_'' # t"
      using cu run by (simp add: t_def)
    moreover have "collapse_run CHR ''_'' (CHR ''_'' # t) = ''_''"
      using t dropWhile_all [OF t] by (cases t) auto
    ultimately show ?thesis using cu run by (simp add: collapse_seps_def)
  qed
qed

text \<open>
  C8, amended: in name normalization, once the name is lower-cased, its white space is
  replaced by \<open>-\<close> and its disallowed characters by \<open>_\<close>, every maximal run of \<open>-\<close> and
  \<open>_\<close> characters collapses to one character, the first character of the run: to \<open>-\<close>
  when the run starts with \<open>-\<close>, to \<open>_\<close> when it starts with \<open>_\<close>. The text before and
  the text after the run are collapsed on their own.
\<close>

theorem collapse_seps_run:
  assumes "run \<noteq> []" and "list_all is_sep run"
    and "pre = [] \<or> \<not> is_sep (last pre)"
    and "post = [] \<or> \<not> is_sep (hd post)"
  shows "collapse_seps (pre @ run @ post) = collapse_seps pre @ [hd run] @ collapse_seps post"
proof -
  let ?d = "collapse_run CHR ''-''" and ?u = "collapse_run CHR ''_''"
  have d: "?d (pre @ run @ post) = ?d pre @ ?d run @ ?d post"
    using assms(3,4) by (simp add: collapse_run_append_left collapse_run_append_right)
  have pre': "?d pre = [] \<or> \<not> is_sep (last (?d pre))"
    using assms(3) by (cases "pre = []") (simp_all add: last_collapse_run)
  have post': "?d post = [] \<or> \<not> is_sep (hd (?d post))"
    using assms(4) by (cases "post = []") (simp_all add: hd_collapse_run)
  have "?u (?d pre @ ?d run @ ?d post) = ?u (?d pre) @ ?u (?d run) @ ?u (?d post)"
    using pre' post' by (simp add: collapse_run_append_left collapse_run_append_right)
  with d collapse_seps_all_sep [OF assms(1,2)] show ?thesis
    by (simp add: collapse_seps_def)
qed

theorem collapse_seps_run_witness:
  "''_-_'' \<noteq> [] \<and> list_all is_sep ''_-_'' \<and> (''ab'' = [] \<or> \<not> is_sep (last ''ab''))
   \<and> (''c-d'' = [] \<or> \<not> is_sep (hd ''c-d''))
   \<and> collapse_seps (''ab'' @ ''_-_'' @ ''c-d'') = ''ab_c-d''"
proof -
  have h: "''_-_'' \<noteq> []" "list_all is_sep ''_-_''" "''ab'' = [] \<or> \<not> is_sep (last ''ab'')"
    "''c-d'' = [] \<or> \<not> is_sep (hd ''c-d'')"
    by code_simp+
  have e: "collapse_seps ''ab'' @ [hd ''_-_''] @ collapse_seps ''c-d'' = ''ab_c-d''"
    by code_simp
  from collapse_seps_run [OF h] h e show ?thesis by (intro conjI) simp_all
qed

text \<open>
  C8, as stated, fails: in \<open>a_ b\<close> the replacements leave the mixed run \<open>_-\<close>, and the
  two collapsing replacements turn it into \<open>_\<close>, not into \<open>-\<close>: the first one finds no
  \<open>-\<close> followed by a separator, the second one replaces \<open>_-\<close> by \<open>_\<close>.
\<close>

theorem collapse_seps_underscore_first_counterexample:
  "replace_disallowed (replace_ws_runs (toLowerCase demo_unicode_lower (units ''a_ b'')))
     = ''a_-b''
   \<and> collapse_seps ''a_-b'' = ''a_b''
   \<and> collapse_seps ''a_-b'' \<noteq> ''a-b''
   \<and> normalize_name demo_unicode_lower (units ''a_ b'') = ''a_b''"
  by code_simp

subsection \<open>Code units and characters\<close>

lemma is_lower_name_char_imp: "is_lower_name_char c \<Longrightarrow> is_name_char c"
  by (auto simp: is_name_char_def is_lower_name_char_def)

lemma is_sep_code: "is_sep c \<longleftrightarrow> sep_unit (of_char c)"
proof -
  have "c = CHR ''-'' \<longleftrightarrow> (of_char c :: int) = of_char CHR ''-''"
    and "c = CHR ''_'' \<longleftrightarrow> (of_char c :: int) = of_char CHR ''_''"
    by (simp_all only: of_char_eq_iff)
  then show ?thesis by (simp add: is_sep_def sep_unit_def)
qed

lemma int_of_char: "(of_char c :: int) = int (of_char c)"
  by (simp add: of_nat_of_char)

lemma is_name_char_code: "is_name_char c \<longleftrightarrow> name_unit (of_char c)"
  unfolding is_name_char_def name_unit_def is_sep_code is_lower_def is_upper_def is_digit_def
    lower_unit_def upper_unit_def digit_unit_def int_of_char
  by simp

lemma is_lower_name_char_code: "is_lower_name_char c \<longleftrightarrow> lower_name_unit (of_char c)"
  unfolding is_lower_name_char_def lower_name_unit_def is_sep_code is_lower_def is_digit_def
    lower_unit_def digit_unit_def int_of_char
  by simp

lemma of_char_char_of: "0 \<le> c \<Longrightarrow> c < 256 \<Longrightarrow> (of_char (char_of c) :: int) = c"
  by simp

lemma is_sep_char_of: "0 \<le> c \<Longrightarrow> c < 256 \<Longrightarrow> is_sep (char_of c) \<longleftrightarrow> sep_unit c"
  by (simp add: is_sep_code)

lemma lower_name_unit_ascii: "lower_name_unit c \<Longrightarrow> 0 \<le> c \<and> c < 256"
  by (auto simp: lower_name_unit_def lower_unit_def digit_unit_def sep_unit_def)

lemma name_unit_ascii: "name_unit c \<Longrightarrow> 0 \<le> c \<and> c < 256"
  by (auto simp: name_unit_def lower_unit_def upper_unit_def digit_unit_def sep_unit_def)

lemma lower_alnum_not_sep: "lower_alnum_unit c \<Longrightarrow> \<not> sep_unit c"
  by (auto simp: lower_alnum_unit_def lower_unit_def digit_unit_def sep_unit_def)

lemma space_not_lower_alnum: "space_unit c \<Longrightarrow> \<not> lower_alnum_unit c"
  by (auto simp: space_unit_def lower_alnum_unit_def lower_unit_def digit_unit_def)

lemma is_lower_name_char_char_of:
  "lower_name_unit c \<Longrightarrow> is_lower_name_char (char_of c)"
  using lower_name_unit_ascii [of c] by (simp add: is_lower_name_char_code)

lemma is_name_char_char_of: "name_unit c \<Longrightarrow> is_name_char (char_of c)"
  using name_unit_ascii [of c] by (simp add: is_name_char_code)

lemma ascii_text_units [simp]: "ascii_text (units s) = s"
  by (simp add: ascii_text_def units_def comp_def)

lemma name_ok_units: "name_ok (units s) \<longleftrightarrow> s \<noteq> [] \<and> list_all is_name_char s"
  by (simp add: name_ok_def units_def list_all_iff is_name_char_code)

subsection \<open>What the replacements keep\<close>

lemma toLowerCase_from_ascii:
  "c \<in> set cs \<Longrightarrow> alnum_unit c \<Longrightarrow>
   \<exists>c'\<in>set (toLowerCase_from ext s i cs). lower_alnum_unit c'"
proof (induction cs arbitrary: i)
  case Nil
  then show ?case by simp
next
  case (Cons a cs)
  show ?case
  proof (cases "c = a")
    case True
    with Cons.prems have "a < 128" "lower_alnum_unit (if upper_unit a then a + 32 else a)"
      by (auto simp: alnum_unit_def lower_alnum_unit_def lower_unit_def upper_unit_def
          digit_unit_def)
    then show ?thesis by simp
  next
    case False
    with Cons.prems have "c \<in> set cs" by simp
    from Cons.IH [OF this Cons.prems(2), of "Suc i"] show ?thesis by auto
  qed
qed

lemma toLowerCase_ascii:
  "c \<in> set n \<Longrightarrow> alnum_unit c \<Longrightarrow> \<exists>c'\<in>set (toLowerCase ext n). lower_alnum_unit c'"
  unfolding toLowerCase_def by (rule toLowerCase_from_ascii)

lemma filter_dropWhile_disjoint:
  "(\<And>x. P x \<Longrightarrow> \<not> Q x) \<Longrightarrow> filter Q (dropWhile P xs) = filter Q xs"
  by (induction xs) auto

lemma filter_replace_ws_runs:
  "filter lower_alnum_unit (replace_ws_runs s) = filter lower_alnum_unit s"
proof (induction s rule: replace_ws_runs.induct)
  case 1
  then show ?case by simp
next
  case (2 c cs)
  have dw: "filter lower_alnum_unit (dropWhile space_unit cs) = filter lower_alnum_unit cs"
    by (rule filter_dropWhile_disjoint) (rule space_not_lower_alnum)
  have dash: "\<not> lower_alnum_unit 45"
    by (simp add: lower_alnum_unit_def lower_unit_def digit_unit_def)
  show ?case
  proof (cases "space_unit c")
    case True
    with 2(1) dw dash space_not_lower_alnum [OF True] show ?thesis by simp
  next
    case False
    with 2(2) show ?thesis by simp
  qed
qed

lemma filter_replace_disallowed:
  "filter (\<lambda>c. \<not> is_sep c) (replace_disallowed s) = map char_of (filter lower_alnum_unit s)"
proof (induction s)
  case Nil
  then show ?case by (simp add: replace_disallowed_def)
next
  case (Cons c s)
  then have ih: "filter (\<lambda>c. \<not> is_sep c) (map (\<lambda>c. if lower_name_unit c then char_of c else CHR ''_'') s)
      = map char_of (filter lower_alnum_unit s)"
    by (simp add: replace_disallowed_def)
  show ?case
  proof (cases "lower_name_unit c")
    case True
    then have "is_sep (char_of c) \<longleftrightarrow> sep_unit c"
      using lower_name_unit_ascii [of c] by (simp add: is_sep_char_of)
    moreover from True have "lower_alnum_unit c \<longleftrightarrow> \<not> sep_unit c"
      using lower_alnum_not_sep [of c] by (auto simp: lower_name_unit_def lower_alnum_unit_def)
    ultimately show ?thesis using True ih by (simp add: replace_disallowed_def)
  next
    case False
    then have "\<not> lower_alnum_unit c" by (auto simp: lower_name_unit_def lower_alnum_unit_def)
    with False ih show ?thesis by (simp add: replace_disallowed_def is_sep_def)
  qed
qed

lemma filter_trim_seps:
  "filter (\<lambda>c. \<not> is_sep c) (trim_seps s) = filter (\<lambda>c. \<not> is_sep c) s"
proof -
  have "filter (\<lambda>c. \<not> is_sep c) (trim_seps s)
      = rev (filter (\<lambda>c. \<not> is_sep c) (dropWhile is_sep (rev (dropWhile is_sep s))))"
    by (simp add: trim_seps_def rev_filter)
  also have "\<dots> = rev (filter (\<lambda>c. \<not> is_sep c) (rev (dropWhile is_sep s)))"
    by (simp only: filter_not_dropWhile)
  also have "\<dots> = filter (\<lambda>c. \<not> is_sep c) (dropWhile is_sep s)"
    by (simp add: rev_filter)
  finally show ?thesis by (simp only: filter_not_dropWhile)
qed

lemma filter_normalize_name:
  "filter (\<lambda>c. \<not> is_sep c) (normalize_name ext n)
   = map char_of (filter lower_alnum_unit (toLowerCase ext n))"
  by (simp add: normalize_name_def collapse_seps_def filter_trim_seps filter_collapse_run
      filter_replace_disallowed filter_replace_ws_runs)

lemma list_all_trim_seps: "list_all Q s \<Longrightarrow> list_all Q (trim_seps s)"
  unfolding trim_seps_def list_all_iff
  by (meson set_dropWhileD set_rev [THEN equalityD1, THEN subsetD])

lemma list_all_replace_disallowed: "list_all is_lower_name_char (replace_disallowed s)"
proof -
  have "is_lower_name_char CHR ''_''"
    by (simp add: is_lower_name_char_def is_sep_def)
  then show ?thesis
    by (induction s) (simp_all add: replace_disallowed_def is_lower_name_char_char_of)
qed

lemma list_all_normalize_name: "list_all is_lower_name_char (normalize_name ext n)"
  unfolding normalize_name_def collapse_seps_def
  by (intro list_all_trim_seps list_all_collapse_run list_all_replace_disallowed)
     (simp_all add: is_lower_name_char_def)

lemma normalize_name_Nil_iff:
  "normalize_name ext n = [] \<longleftrightarrow> (\<forall>c\<in>set (toLowerCase ext n). \<not> lower_alnum_unit c)"
proof
  assume "normalize_name ext n = []"
  then have "map char_of (filter lower_alnum_unit (toLowerCase ext n)) = ([] :: string)"
    using filter_normalize_name [of ext n] by simp
  then show "\<forall>c\<in>set (toLowerCase ext n). \<not> lower_alnum_unit c"
    by (simp add: filter_empty_conv)
next
  assume a: "\<forall>c\<in>set (toLowerCase ext n). \<not> lower_alnum_unit c"
  then have "filter lower_alnum_unit (toLowerCase ext n) = []" by (simp add: filter_empty_conv)
  then have "filter (\<lambda>c. \<not> is_sep c) (normalize_name ext n) = []"
    by (simp add: filter_normalize_name)
  then have all: "\<forall>c\<in>set (normalize_name ext n). is_sep c"
    by (simp add: filter_empty_conv)
  show "normalize_name ext n = []"
  proof (rule ccontr)
    assume ne: "normalize_name ext n \<noteq> []"
    define t where "t = dropWhile is_sep (rev (dropWhile is_sep (collapse_seps
      (replace_disallowed (replace_ws_runs (toLowerCase ext n))))))"
    have r: "normalize_name ext n = rev t"
      by (simp add: normalize_name_def trim_seps_def t_def)
    with ne have "t \<noteq> []" by simp
    then have "\<not> is_sep (hd t)" unfolding t_def by (rule hd_dropWhile)
    moreover from \<open>t \<noteq> []\<close> have "hd t \<in> set (normalize_name ext n)" by (simp add: r)
    ultimately show False using all by blast
  qed
qed

lemma list_all_registered_name: "list_all is_name_char (registered_name ext n)"
proof (cases "name_ok n")
  case True
  then show ?thesis
    by (simp add: registered_name_def name_ok_def ascii_text_def list_all_iff is_name_char_char_of)
next
  case False
  then show ?thesis
    using list_all_normalize_name [of ext n]
    by (simp add: registered_name_def list_all_iff is_lower_name_char_imp)
qed

text \<open>
  C7, as stated, fails: the manifest name \<open>!!!\<close> is not empty, fails the pattern, passes
  the validation of the manifest and is registered as the empty string.
\<close>

theorem parseSkillFile_empty_name_counterexample:
  "units ''!!!'' \<noteq> [] \<and> \<not> name_ok (units ''!!!'')
   \<and> parseSkillFile demo_unicode_lower
        (\<lambda>text. Some (\<lparr>fm_name = Some (units ''!!!''), fm_description = Some ''d'',
                        fm_metadata = NoMetadata\<rparr>, text))
        ''body''
       = Inr (\<lparr>sm_name = [], sm_description = ''d'', sm_metadata = None\<rparr>, ''body'')
   \<and> \<not> name_ok (units [])"
  by code_simp

text \<open>
  C7, amended: for every manifest whose non-empty name fails the pattern, every character of
  the registered name is in \<open>[a-zA-Z0-9-_]\<close>, and the registered name is non-empty (so that
  it matches \<open>[a-zA-Z0-9-_]+\<close>) exactly when the lower-cased name, as \<open>toLowerCase\<close>
  returns it, contains at least one of \<open>a\<close> to \<open>z\<close> and \<open>0\<close> to \<open>9\<close>. That is so, in
  particular, whenever the manifest's name contains a letter \<open>a\<close> to \<open>z\<close>, \<open>A\<close> to \<open>Z\<close>
  or a digit; it is also so for a name such as the Kelvin sign, which has none and
  lower-cases to \<open>k\<close>. This holds whatever the case mapping above ASCII is.
\<close>

theorem registered_name_shape:
  assumes "n \<noteq> []" and "\<not> name_ok n"
  shows "list_all is_name_char (registered_name ext n)
     \<and> (name_ok (units (registered_name ext n))
          \<longleftrightarrow> (\<exists>c\<in>set (toLowerCase ext n). lower_alnum_unit c))
     \<and> ((\<exists>c\<in>set n. alnum_unit c) \<longrightarrow> name_ok (units (registered_name ext n)))"
proof -
  have r: "registered_name ext n = normalize_name ext n"
    using assms by (simp add: registered_name_def)
  have all: "list_all is_name_char (registered_name ext n)"
    by (rule list_all_registered_name)
  have iff: "name_ok (units (registered_name ext n))
          \<longleftrightarrow> (\<exists>c\<in>set (toLowerCase ext n). lower_alnum_unit c)"
    using all normalize_name_Nil_iff [of ext n] unfolding name_ok_units r by blast
  have "name_ok (units (registered_name ext n))" if "\<exists>c\<in>set n. alnum_unit c"
    using that toLowerCase_ascii [of _ n ext] unfolding iff by blast
  with all iff show ?thesis by blast
qed

theorem registered_name_shape_witness:
  "units ''My Skill!'' \<noteq> [] \<and> \<not> name_ok (units ''My Skill!'')
   \<and> registered_name demo_unicode_lower (units ''My Skill!'') = ''my-skill''
   \<and> (\<exists>c\<in>set (units ''My Skill!''). alnum_unit c)
   \<and> name_ok (units (registered_name demo_unicode_lower (units ''My Skill!'')))
   \<and> [8490] \<noteq> ([] :: code_unit list) \<and> \<not> name_ok [8490]
   \<and> toLowerCase demo_unicode_lower [8490] = units ''k''
   \<and> (\<exists>c\<in>set (toLowerCase demo_unicode_lower [8490]). lower_alnum_unit c)
   \<and> registered_name demo_unicode_lower [8490] = ''k''
   \<and> name_ok (units (registered_name demo_unicode_lower [8490]))"
proof -
  have h: "units ''My Skill!'' \<noteq> []" "\<not> name_ok (units ''My Skill!'')" by code_simp+
  have e: "registered_name demo_unicode_lower (units ''My Skill!'') = ''my-skill''"
    by code_simp
  have a: "\<exists>c\<in>set (units ''My Skill!''). alnum_unit c" by code_simp
  have k: "[8490] \<noteq> ([] :: code_unit list)" "\<not> name_ok [8490]" by code_simp+
  have kl: "toLowerCase demo_unicode_lower [8490] = units ''k''" by code_simp
  have ka: "\<exists>c\<in>set (toLowerCase demo_unicode_lower [8490]). lower_alnum_unit c" by code_simp
  have ke: "registered_name demo_unicode_lower [8490] = ''k''" by code_simp
  from registered_name_shape [OF h, of demo_unicode_lower] a
  have 1: "name_ok (units (registered_name demo_unicode_lower (units ''My Skill!'')))"
    by blast
  from registered_name_shape [OF k, of demo_unicode_lower] ka
  have 2: "name_ok (units (registered_name demo_unicode_lower [8490]))"
    by blast
  from h e a 1 k kl ka ke 2 show ?thesis by (intro conjI)
qed

lemma registered_name_twice:
  "registered_name ext (units (registered_name ext n)) = registered_name ext n"
proof (cases "registered_name ext n = []")
  case True
  have "normalize_name ext [] = []"
    by (simp add: normalize_name_def toLowerCase_def replace_disallowed_def collapse_seps_def
        trim_seps_def)
  with True show ?thesis by (simp add: registered_name_def name_ok_def units_def)
next
  case False
  with list_all_registered_name [of ext n] have "name_ok (units (registered_name ext n))"
    by (simp add: name_ok_units)
  then show ?thesis by (simp add: registered_name_def [of ext "units (registered_name ext n)"])
qed

lemma parseSkillFile_name:
  assumes "parseSkillFile ext fm fc = Inr (sm, body)"
  shows "\<exists>d content raw. fm fc = Some (d, content) \<and> fm_name d = Some raw
           \<and> sm_name sm = registered_name ext (trim_units raw) \<and> body = trim content"
  using assms
  by (auto simp: parseSkillFile_def zSkillMatter_parse_def
      split: option.splits sum.splits if_splits metadata_field.splits)

text \<open>
  C9. The name that manifest parsing registers is a function of the manifest's name alone
  (the registration step applied to the trimmed name), and registering is idempotent: the
  pattern test followed by normalization, applied to a name that it produced, gives that
  name back.
\<close>

theorem parsed_name_function_and_idempotent:
  "registered_name ext (units (registered_name ext n)) = registered_name ext n
   \<and> (\<forall>fm fc sm body. parseSkillFile ext fm fc = Inr (sm, body) \<longrightarrow>
         (\<exists>d content raw. fm fc = Some (d, content) \<and> fm_name d = Some raw
             \<and> sm_name sm = registered_name ext (trim_units raw))
         \<and> registered_name ext (units (sm_name sm)) = sm_name sm)"
proof (intro conjI allI impI)
  show "registered_name ext (units (registered_name ext n)) = registered_name ext n"
    by (rule registered_name_twice)
next
  fix fm :: matter_fn and fc sm body
  assume p: "parseSkillFile ext fm fc = Inr (sm, body)"
  from parseSkillFile_name [OF p]
  show "\<exists>d content raw. fm fc = Some (d, content) \<and> fm_name d = Some raw
             \<and> sm_name sm = registered_name ext (trim_units raw)"
    by blast
  from parseSkillFile_name [OF p] obtain raw
    where "sm_name sm = registered_name ext (trim_units raw)"
    by blast
  then show "registered_name ext (units (sm_name sm)) = sm_name sm"
    by (simp add: registered_name_twice)
qed

theorem parsed_name_function_and_idempotent_witness:
  "parseSkillFile demo_unicode_lower demo_matter demo_raw_a
     = Inr (\<lparr>sm_name = ''demo-skill'', sm_description = ''first'', sm_metadata = None\<rparr>,
            ''Hello from a'')
   \<and> registered_name demo_unicode_lower (trim_units (units ''Demo Skill'')) = ''demo-skill''
   \<and> registered_name demo_unicode_lower (units ''demo-skill'') = ''demo-skill''"
proof -
  have p: "parseSkillFile demo_unicode_lower demo_matter demo_raw_a
     = Inr (\<lparr>sm_name = ''demo-skill'', sm_description = ''first'', sm_metadata = None\<rparr>,
            ''Hello from a'')"
    by code_simp
  have r: "registered_name demo_unicode_lower (trim_units (units ''Demo Skill'')) = ''demo-skill''"
    by code_simp
  from parsed_name_function_and_idempotent [THEN conjunct2, rule_format, OF p, THEN conjunct2]
  have "registered_name demo_unicode_lower (units ''demo-skill'') = ''demo-skill''" by simp
  with p r show ?thesis by (intro conjI)
qed

section \<open>Properties of loading and reading\<close>

subsection \<open>The load never fails\<close>

lemma doLoadSkills_Inr: "\<exists>m st'. doLoadSkills e st = (Inr m, st')"
  by (simp add: doLoadSkills_def Let_def split: option.split prod.split)

lemma loadSkills_with_Inr: "\<exists>m st'. loadSkills_with pass force st = (Inr m, st')"
  by (simp add: loadSkills_with_def split: option.split prod.split sum.split)

lemma loadSkills_promise:
  assumes "loadSkills e force st = (Inr m, st1)"
  shows "skillMapPromise st1 = Some m"
proof -
  obtain m' st' where d: "doLoadSkills e st = (Inr m', st')"
    using doLoadSkills_Inr by blast
  with assms show ?thesis
    by (auto simp: loadSkills_def loadSkills_with_def split: option.splits if_splits)
qed

lemma loadSkills_cached:
  "skillMapPromise st = Some m \<Longrightarrow> loadSkills e False st = (Inr m, st)"
  by (simp add: loadSkills_def loadSkills_with_def)

text \<open>
  C5. A load does not throw to its caller. When the skills root cannot be enumerated, the
  load pass, and with it \<open>loadSkills\<close>, resolves with the empty snapshot. \<open>loadSkills\<close>
  resolves whatever the pass does; when the pass throws, the call resolves with the empty
  snapshot and clears the stored promise, so that the next call runs a pass of its own and
  stores and returns what that pass produces.
\<close>

theorem loadSkills_never_throws:
  "(\<forall>e st. readdir e (skillsDir e) = None \<longrightarrow>
       fst (doLoadSkills e st) = Inr Map.empty
       \<and> fst (loadSkills e True st) = Inr Map.empty
       \<and> (skillMapPromise st = None \<longrightarrow> fst (loadSkills e False st) = Inr Map.empty))
   \<and> (\<forall>pass force st. \<exists>m st'. loadSkills_with pass force st = (Inr m, st'))
   \<and> (\<forall>e force st. \<exists>m st'. loadSkills e force st = (Inr m, st'))
   \<and> (\<forall>pass force st err st1.
         (force \<or> skillMapPromise st = None) \<and> pass st = (Inl err, st1) \<longrightarrow>
           loadSkills_with pass force st = (Inr Map.empty, st1\<lparr>skillMapPromise := None\<rparr>)
           \<and> (\<forall>retry m' st2. retry (st1\<lparr>skillMapPromise := None\<rparr>) = (Inr m', st2) \<longrightarrow>
                 loadSkills_with retry False (st1\<lparr>skillMapPromise := None\<rparr>)
                 = (Inr m', st2\<lparr>skillMapPromise := Some m'\<rparr>)))"
proof (intro conjI allI impI)
  fix e :: env and st :: state
  assume "readdir e (skillsDir e) = None"
  then show "fst (doLoadSkills e st) = Inr Map.empty"
    "fst (loadSkills e True st) = Inr Map.empty"
    by (simp_all add: loadSkills_def loadSkills_with_def doLoadSkills_def Let_def
        split: option.split)
next
  fix e :: env and st :: state
  assume "readdir e (skillsDir e) = None" "skillMapPromise st = None"
  then show "fst (loadSkills e False st) = Inr Map.empty"
    by (simp add: loadSkills_def loadSkills_with_def doLoadSkills_def Let_def)
next
  fix pass force st
  show "\<exists>m st'. loadSkills_with pass force st = (Inr m, st')"
    by (rule loadSkills_with_Inr)
next
  fix e :: env and force and st :: state
  show "\<exists>m st'. loadSkills e force st = (Inr m, st')"
    unfolding loadSkills_def by (rule loadSkills_with_Inr)
next
  fix pass :: load_pass and force and st :: state and err st1
  assume "(force \<or> skillMapPromise st = None) \<and> pass st = (Inl err, st1)"
  then show "loadSkills_with pass force st = (Inr Map.empty, st1\<lparr>skillMapPromise := None\<rparr>)"
    by (auto simp: loadSkills_with_def split: option.split)
next
  fix pass :: load_pass and force and st :: state and err :: error and st1 :: state
    and retry :: load_pass and m' st2
  assume "retry (st1\<lparr>skillMapPromise := None\<rparr>) = (Inr m', st2)"
  then show "loadSkills_with retry False (st1\<lparr>skillMapPromise := None\<rparr>)
                 = (Inr m', st2\<lparr>skillMapPromise := Some m'\<rparr>)"
    by (simp add: loadSkills_with_def)
qed

theorem loadSkills_never_throws_witness:
  "readdir unreadable_env (skillsDir unreadable_env) = None
   \<and> fst (doLoadSkills unreadable_env init_state) = Inr Map.empty
   \<and> fst (loadSkills unreadable_env True init_state) = Inr Map.empty
   \<and> ((False \<or> skillMapPromise init_state = None)
        \<and> failing_pass init_state = (Inl Unexpected, init_state))
   \<and> loadSkills_with failing_pass False init_state
       = (Inr Map.empty, init_state\<lparr>skillMapPromise := None\<rparr>)
   \<and> (\<exists>m' st2.
         doLoadSkills (demo_env []) (init_state\<lparr>skillMapPromise := None\<rparr>) = (Inr m', st2)
         \<and> loadSkills_with (doLoadSkills (demo_env [])) False
              (init_state\<lparr>skillMapPromise := None\<rparr>)
           = (Inr m', st2\<lparr>skillMapPromise := Some m'\<rparr>))"
proof -
  have h1: "readdir unreadable_env (skillsDir unreadable_env) = None"
    by (simp add: unreadable_env_def)
  have h2: "(False \<or> skillMapPromise init_state = None)
        \<and> failing_pass init_state = (Inl Unexpected, init_state)"
    by (simp add: init_state_def failing_pass_def)
  obtain m' st2
    where h3: "doLoadSkills (demo_env []) (init_state\<lparr>skillMapPromise := None\<rparr>) = (Inr m', st2)"
    using doLoadSkills_Inr by blast
  note root = loadSkills_never_throws [THEN conjunct1, rule_format, OF h1]
  note handler = loadSkills_never_throws
    [THEN conjunct2, THEN conjunct2, THEN conjunct2, THEN spec [of _ failing_pass],
     THEN spec [of _ False], THEN spec [of _ init_state], THEN spec [of _ Unexpected],
     THEN spec [of _ init_state], THEN mp, OF h2]
  from handler have a: "loadSkills_with failing_pass False init_state
       = (Inr Map.empty, init_state\<lparr>skillMapPromise := None\<rparr>)"
    by (rule conjunct1)
  from handler have "\<forall>retry m' st2.
      retry (init_state\<lparr>skillMapPromise := None\<rparr>) = (Inr m', st2) \<longrightarrow>
      loadSkills_with retry False (init_state\<lparr>skillMapPromise := None\<rparr>)
        = (Inr m', st2\<lparr>skillMapPromise := Some m'\<rparr>)"
    by (rule conjunct2)
  from this [THEN spec [of _ "doLoadSkills (demo_env [])"], THEN spec [of _ m'],
      THEN spec [of _ st2], THEN mp, OF h3] h3
  have b: "\<exists>m' st2.
         doLoadSkills (demo_env []) (init_state\<lparr>skillMapPromise := None\<rparr>) = (Inr m', st2)
         \<and> loadSkills_with (doLoadSkills (demo_env [])) False
              (init_state\<lparr>skillMapPromise := None\<rparr>)
           = (Inr m', st2\<lparr>skillMapPromise := Some m'\<rparr>)"
    by blast
  from h1 root h2 a b show ?thesis by blast
qed

subsection \<open>The checks of a read\<close>

text \<open>
  C6. With \<open>m\<close> the snapshot that the read obtains and \<open>st1\<close> the state at that point
  (the state it started from when a snapshot was already stored): the read fails with
  \<open>SkillNotFound\<close> when the name is not in \<open>m\<close>; otherwise with \<open>InvalidPath\<close>, carrying
  the validator's reason, when the validator rejects the path; otherwise with
  \<open>FileNotFound\<close> when the path is not among the skill's \<open>availableFiles\<close>. In all three
  cases the state returned is \<open>st1\<close>: its trace has no cache lookup and no storage access
  of the read, and the cache is untouched.
\<close>

theorem viewSkillContent_checks:
  assumes "loadSkills e False st = (Inr m, st1)"
  shows "(m n = None \<longrightarrow> viewSkillContent e n p st = (Inl (SkillNotFound n), st1))
    \<and> (\<forall>sk reason. m n = Some sk \<and> validateSkillPath p = Invalid reason \<longrightarrow>
          viewSkillContent e n p st = (Inl (InvalidPath p reason), st1))
    \<and> (\<forall>sk. m n = Some sk \<and> validateSkillPath p = Valid \<and> p \<notin> set (availableFiles sk) \<longrightarrow>
          viewSkillContent e n p st = (Inl (FileNotFound p n (availableFiles sk)), st1))
    \<and> (\<forall>m0. skillMapPromise st = Some m0 \<longrightarrow> m = m0 \<and> st1 = st)"
  using assms
  by (auto simp: viewSkillContent_def loadSkills_cached)

theorem viewSkillContent_checks_witness:
  "\<exists>m st1 sk.
     loadSkills (demo_env []) False init_state = (Inr m, st1)
     \<and> m ''unknown-skill'' = None
     \<and> viewSkillContent (demo_env []) ''unknown-skill'' ''SKILL.md'' init_state
        = (Inl (SkillNotFound ''unknown-skill''), st1)
     \<and> m ''demo-skill'' = Some sk
     \<and> validateSkillPath ''../x'' = Invalid ''Path traversal not allowed''
     \<and> viewSkillContent (demo_env []) ''demo-skill'' ''../x'' init_state
        = (Inl (InvalidPath ''../x'' ''Path traversal not allowed''), st1)
     \<and> validateSkillPath ''scripts/x.sql'' = Valid
     \<and> ''scripts/x.sql'' \<notin> set (availableFiles sk)
     \<and> viewSkillContent (demo_env []) ''demo-skill'' ''scripts/x.sql'' init_state
        = (Inl (FileNotFound ''scripts/x.sql'' ''demo-skill'' (availableFiles sk)), st1)
     \<and> skillMapPromise st1 = Some m
     \<and> loadSkills (demo_env []) False st1 = (Inr m, st1)"
proof -
  let ?load = "loadSkills (demo_env []) False init_state"
  obtain m st1 where l: "?load = (Inr m, st1)"
    using loadSkills_with_Inr unfolding loadSkills_def by blast
  have "projr (fst ?load) ''unknown-skill'' = None" by code_simp
  with l have u: "m ''unknown-skill'' = None" by simp
  have "projr (fst ?load) ''demo-skill'' \<noteq> None" by code_simp
  with l obtain sk where sk: "m ''demo-skill'' = Some sk" by auto
  have v1: "validateSkillPath ''../x'' = Invalid ''Path traversal not allowed''" by code_simp
  have v2: "validateSkillPath ''scripts/x.sql'' = Valid" by code_simp
  have "''scripts/x.sql'' \<notin> set (availableFiles (the (projr (fst ?load) ''demo-skill'')))"
    by code_simp
  with l sk have nf: "''scripts/x.sql'' \<notin> set (availableFiles sk)" by simp
  have pr: "skillMapPromise st1 = Some m" using l by (rule loadSkills_promise)
  then have l1: "loadSkills (demo_env []) False st1 = (Inr m, st1)" by (rule loadSkills_cached)
  note c1 = viewSkillContent_checks [OF l, of "''unknown-skill''" "''SKILL.md''", THEN conjunct1,
      rule_format, OF u]
  note c2 = viewSkillContent_checks [OF l, of "''demo-skill''" "''../x''", THEN conjunct2,
      THEN conjunct1, rule_format, OF conjI [OF sk v1]]
  note c3 = viewSkillContent_checks [OF l, of "''demo-skill''" "''scripts/x.sql''",
      THEN conjunct2, THEN conjunct2, THEN conjunct1, rule_format,
      OF conjI [OF sk conjI [OF v2 nf]]]
  note c4 = viewSkillContent_checks [OF l1, of "''demo-skill''" "''SKILL.md''",
      THEN conjunct2, THEN conjunct2, THEN conjunct2, rule_format, OF pr]
  from l u c1 sk v1 c2 v2 nf c3 pr l1 show ?thesis by blast
qed

subsection \<open>One directory\<close>

lemma emit_fields [simp]:
  "skillContentCache (emit es st) = skillContentCache st"
  "skillMapPromise (emit es st) = skillMapPromise st"
  "trace (emit es st) = trace st @ es"
  by (simp_all add: emit_def)

lemma cache_key_inj [simp]: "cache_key n p = cache_key n' p \<longleftrightarrow> n = n'"
  by (simp add: cache_key_def)

lemma scanSkillDirectory_fields [simp]:
  "fst (scanSkillDirectory e p st) = availableFiles (skill_of e p m)"
  "skillContentCache (snd (scanSkillDirectory e p st)) = skillContentCache st"
  "skillMapPromise (snd (scanSkillDirectory e p st)) = skillMapPromise st"
  by (simp_all add: scanSkillDirectory_def skill_of_def)

lemma loadLocalPath_skills:
  "fst (loadLocalPath e p (skills, st)) =
     (case manifest_of e p of
        None \<Rightarrow> skills
      | Some (m, content) \<Rightarrow>
          if skills (sm_name m) \<noteq> None then skills
          else skills(sm_name m \<mapsto> skill_of e p m))"
  by (auto simp: loadLocalPath_def manifest_of_def skill_of_def scanSkillDirectory_def Let_def
      split: option.split sum.split prod.split)

lemma loadLocalPath_cache:
  "skillContentCache (snd (loadLocalPath e p (skills, st))) =
     (case manifest_of e p of
        None \<Rightarrow> skillContentCache st
      | Some (m, content) \<Rightarrow>
          if skills (sm_name m) \<noteq> None then skillContentCache st
          else (skillContentCache st)(cache_key (sm_name m) SKILL_MAIN_FILE \<mapsto> content))"
  by (auto simp: loadLocalPath_def manifest_of_def cache_key_def scanSkillDirectory_def Let_def
      split: option.split sum.split prod.split)

lemma loadLocalPath_registry_ok:
  assumes "registry_ok e skills (skillContentCache st)"
  shows "registry_ok e (fst (loadLocalPath e p (skills, st)))
           (skillContentCache (snd (loadLocalPath e p (skills, st))))"
proof (cases "manifest_of e p")
  case None
  with assms show ?thesis by (simp add: loadLocalPath_skills loadLocalPath_cache)
next
  case (Some r)
  obtain m content where r: "r = (m, content)" by (cases r)
  show ?thesis
  proof (cases "skills (sm_name m) = None")
    case False
    with assms Some r show ?thesis by (simp add: loadLocalPath_skills loadLocalPath_cache)
  next
    case True
    let ?k = "\<lambda>n. cache_key n SKILL_MAIN_FILE"
    let ?skills = "skills(sm_name m \<mapsto> skill_of e p m)"
    let ?cache = "(skillContentCache st)(?k (sm_name m) \<mapsto> content)"
    from assms have d: "dom (skillContentCache st) = ?k ` dom skills"
      and old: "\<And>n sk. skills n = Some sk \<Longrightarrow>
            \<exists>m' c. manifest_of e (path sk) = Some (m', c) \<and> sm_name m' = n
               \<and> sk = skill_of e (path sk) m'
               \<and> skillContentCache st (?k n) = Some c"
      by (auto simp: registry_ok_def)
    have "dom ?cache = ?k ` dom ?skills" using d by auto
    moreover have "\<exists>m' c. manifest_of e (path sk) = Some (m', c) \<and> sm_name m' = n
               \<and> sk = skill_of e (path sk) m' \<and> ?cache (?k n) = Some c"
      if "?skills n = Some sk" for n sk
    proof (cases "n = sm_name m")
      case True
      with that have "sk = skill_of e p m" by simp
      with True Some r show ?thesis by (simp add: skill_of_def)
    next
      case False
      with that have "skills n = Some sk" by simp
      from old [OF this] False show ?thesis by simp
    qed
    ultimately have "registry_ok e ?skills ?cache"
      unfolding registry_ok_def by blast
    with True Some r show ?thesis by (simp add: loadLocalPath_skills loadLocalPath_cache)
  qed
qed

subsection \<open>The loop over the directories\<close>

lemma load_entries_registry_ok:
  "registry_ok e skills (skillContentCache st) \<Longrightarrow>
   registry_ok e (fst (load_entries e entries (skills, st)))
     (skillContentCache (snd (load_entries e entries (skills, st))))"
proof (induction entries arbitrary: skills st)
  case Nil
  then show ?case by simp
next
  case (Cons entry entries)
  show ?case
  proof (cases "d_kind entry = Directory")
    case False
    with Cons show ?thesis by simp
  next
    case True
    let ?acc = "loadLocalPath e (join_path (skillsDir e) (d_name entry)) (skills, st)"
    have "registry_ok e (fst ?acc) (skillContentCache (snd ?acc))"
      using Cons.prems by (rule loadLocalPath_registry_ok)
    from Cons.IH [OF this] True show ?thesis by simp
  qed
qed

lemma load_entries_first:
  "fst (load_entries e entries (skills, st)) n =
     (case skills n of
        Some sk \<Rightarrow> Some sk
      | None \<Rightarrow>
          (case find (yields e n) (skill_dirs e entries) of
             None \<Rightarrow> None
           | Some p \<Rightarrow> map_option (\<lambda>(m, content). skill_of e p m) (manifest_of e p)))"
proof (induction entries arbitrary: skills st)
  case Nil
  then show ?case by (simp add: skill_dirs_def split: option.split)
next
  case (Cons entry entries)
  show ?case
  proof (cases "d_kind entry = Directory")
    case False
    then have "skill_dirs e (entry # entries) = skill_dirs e entries"
      by (simp add: skill_dirs_def)
    moreover from False have "load_entries e (entry # entries) (skills, st)
        = load_entries e entries (skills, st)"
      by simp
    ultimately show ?thesis using Cons.IH [of skills st] by (simp only:)
  next
    case True
    let ?p = "join_path (skillsDir e) (d_name entry)"
    let ?acc = "loadLocalPath e ?p (skills, st)"
    have dirs: "skill_dirs e (entry # entries) = ?p # skill_dirs e entries"
      using True by (simp add: skill_dirs_def)
    have step: "fst (load_entries e (entry # entries) (skills, st)) n
        = fst (load_entries e entries (fst ?acc, snd ?acc)) n"
      using True by simp
    let ?rhs = "\<lambda>sk0 ds. (case sk0 of
        Some sk \<Rightarrow> Some sk
      | None \<Rightarrow>
          (case find (yields e n) ds of
             None \<Rightarrow> None
           | Some p \<Rightarrow> map_option (\<lambda>(m, content). skill_of e p m) (manifest_of e p)))"
    have ih: "fst (load_entries e entries (fst ?acc, snd ?acc)) n
        = ?rhs (fst ?acc n) (skill_dirs e entries)"
      by (rule Cons.IH)
    have "?rhs (fst ?acc n) (skill_dirs e entries) = ?rhs (skills n) (?p # skill_dirs e entries)"
    proof (cases "manifest_of e ?p")
      case None
      then have "\<not> yields e n ?p" by (simp add: yields_def)
      with None show ?thesis by (simp add: loadLocalPath_skills cong: option.case_cong)
    next
      case (Some r)
      obtain m content where r: "r = (m, content)" by (cases r)
      show ?thesis
      proof (cases "sm_name m = n")
        case True
        with Some r have "yields e n ?p" by (simp add: yields_def)
        with True Some r show ?thesis
          by (simp add: loadLocalPath_skills cong: option.case_cong split: option.split)
      next
        case False
        with Some r have "\<not> yields e n ?p" by (simp add: yields_def)
        with False Some r show ?thesis
          by (simp add: loadLocalPath_skills cong: option.case_cong)
      qed
    qed
    with step ih dirs show ?thesis by (simp only:)
  qed
qed

lemma doLoadSkills_entries:
  assumes "readdir e (skillsDir e) = Some entries"
  shows "\<exists>st0. skillContentCache st0 = Map.empty
     \<and> doLoadSkills e st = (Inr (fst (load_entries e entries (Map.empty, st0))),
                            snd (load_entries e entries (Map.empty, st0)))"
  using assms
  by (auto simp: doLoadSkills_def Let_def split: prod.split
      intro!: exI [of _ "emit [CacheClear, ReadDir (skillsDir e)] (st\<lparr>skillContentCache := Map.empty\<rparr>)"])

lemma doLoadSkills_registry_ok:
  assumes "doLoadSkills e st = (Inr m, st')"
  shows "registry_ok e m (skillContentCache st')"
proof (cases "readdir e (skillsDir e)")
  case None
  with assms show ?thesis
    by (auto simp: doLoadSkills_def Let_def registry_ok_def)
next
  case (Some entries)
  from doLoadSkills_entries [OF Some, of st] obtain st0
    where c: "skillContentCache st0 = Map.empty"
      and d: "doLoadSkills e st = (Inr (fst (load_entries e entries (Map.empty, st0))),
                            snd (load_entries e entries (Map.empty, st0)))"
    by blast
  have "registry_ok e Map.empty (skillContentCache st0)"
    by (simp add: c registry_ok_def)
  from load_entries_registry_ok [OF this] d assms show ?thesis by simp
qed

lemma find_first:
  "i < length xs \<Longrightarrow> P (xs ! i) \<Longrightarrow> \<forall>k<i. \<not> P (xs ! k) \<Longrightarrow> find P xs = Some (xs ! i)"
  unfolding find_Some_iff by blast

text \<open>
  C4. When two directories of one load pass hold manifests with the same final name, and
  the earlier one is the first directory of the pass with that name, the snapshot binds the
  name to the skill of the earlier directory and the cache holds the earlier body under the
  name's key; no skill of the snapshot comes from the later directory, and the cache has
  exactly one key for each registered name.
\<close>

theorem doLoadSkills_first_directory_wins:
  assumes "readdir e (skillsDir e) = Some entries"
    and "i < j" and "j < length (skill_dirs e entries)"
    and "manifest_of e (skill_dirs e entries ! i) = Some (mi, bi)"
    and "manifest_of e (skill_dirs e entries ! j) = Some (mj, bj)"
    and "sm_name mj = sm_name mi"
    and "\<forall>k<i. \<not> yields e (sm_name mi) (skill_dirs e entries ! k)"
    and "doLoadSkills e st = (Inr m, st')"
  shows "m (sm_name mi) = Some (skill_of e (skill_dirs e entries ! i) mi)
    \<and> skillContentCache st' (cache_key (sm_name mi) SKILL_MAIN_FILE) = Some bi
    \<and> (skill_dirs e entries ! j \<noteq> skill_dirs e entries ! i \<longrightarrow>
         (\<forall>n sk. m n = Some sk \<longrightarrow> path sk \<noteq> skill_dirs e entries ! j))
    \<and> dom (skillContentCache st') = (\<lambda>n. cache_key n SKILL_MAIN_FILE) ` dom m"
proof -
  let ?ds = "skill_dirs e entries"
  from doLoadSkills_entries [OF assms(1), of st] assms(8) obtain st0
    where m: "m = fst (load_entries e entries (Map.empty, st0))"
    by auto
  have lookup: "m n = (case find (yields e n) ?ds of
             None \<Rightarrow> None
           | Some p \<Rightarrow> map_option (\<lambda>(m, content). skill_of e p m) (manifest_of e p))" for n
    unfolding m load_entries_first by simp
  have ok: "registry_ok e m (skillContentCache st')"
    using assms(8) by (rule doLoadSkills_registry_ok)
  have yi: "yields e (sm_name mi) (?ds ! i)"
    using assms(4) by (simp add: yields_def)
  have first: "find (yields e (sm_name mi)) ?ds = Some (?ds ! i)"
    using assms(2,3,7) yi by (intro find_first) auto
  have reg: "m (sm_name mi) = Some (skill_of e (?ds ! i) mi)"
    unfolding lookup first using assms(4) by simp
  have pth: "path (skill_of e (?ds ! i) mi) = ?ds ! i"
    by (simp add: skill_of_def)
  from ok reg obtain m' c
    where "manifest_of e (path (skill_of e (?ds ! i) mi)) = Some (m', c)"
      and "skillContentCache st' (cache_key (sm_name mi) SKILL_MAIN_FILE) = Some c"
    unfolding registry_ok_def by blast
  with assms(4) have body:
    "skillContentCache st' (cache_key (sm_name mi) SKILL_MAIN_FILE) = Some bi"
    unfolding pth by simp
  have later: "path sk \<noteq> ?ds ! j" if ne: "?ds ! j \<noteq> ?ds ! i" and sk: "m n = Some sk" for n sk
  proof
    assume pj: "path sk = ?ds ! j"
    from sk obtain p where f: "find (yields e n) ?ds = Some p"
      and s: "map_option (\<lambda>(m, content). skill_of e p m) (manifest_of e p) = Some sk"
      unfolding lookup by (auto split: option.splits)
    from s have "path sk = p" by (auto simp: skill_of_def)
    with pj have p: "p = ?ds ! j" by simp
    from f have "yields e n p" unfolding find_Some_iff by blast
    with p assms(5,6) have "n = sm_name mi" by (simp add: yields_def)
    with f first p ne show False by simp
  qed
  from ok have "dom (skillContentCache st') = (\<lambda>n. cache_key n SKILL_MAIN_FILE) ` dom m"
    by (simp add: registry_ok_def)
  with reg body later show ?thesis by blast
qed

theorem doLoadSkills_first_directory_wins_witness:
  "\<exists>m st'.
     readdir (demo_env []) (skillsDir (demo_env [])) = Some demo_entries
     \<and> (0::nat) < 1 \<and> 1 < length (skill_dirs (demo_env []) demo_entries)
     \<and> skill_dirs (demo_env []) demo_entries ! 0 = ''/skills/a''
     \<and> skill_dirs (demo_env []) demo_entries ! 1 = ''/skills/b''
     \<and> manifest_of (demo_env []) (skill_dirs (demo_env []) demo_entries ! 0)
        = Some (\<lparr>sm_name = ''demo-skill'', sm_description = ''first'', sm_metadata = None\<rparr>,
                ''Hello from a'')
     \<and> manifest_of (demo_env []) (skill_dirs (demo_env []) demo_entries ! 1)
        = Some (\<lparr>sm_name = ''demo-skill'', sm_description = ''second'', sm_metadata = None\<rparr>,
                ''Hello from b'')
     \<and> doLoadSkills (demo_env []) init_state = (Inr m, st')
     \<and> m ''demo-skill''
        = Some (skill_of (demo_env []) (skill_dirs (demo_env []) demo_entries ! 0)
                  \<lparr>sm_name = ''demo-skill'', sm_description = ''first'', sm_metadata = None\<rparr>)
     \<and> skillContentCache st' (cache_key ''demo-skill'' SKILL_MAIN_FILE) = Some ''Hello from a''
     \<and> (\<forall>n sk. m n = Some sk \<longrightarrow> path sk \<noteq> skill_dirs (demo_env []) demo_entries ! 1)
     \<and> dom (skillContentCache st') = (\<lambda>n. cache_key n SKILL_MAIN_FILE) ` dom m"
proof -
  let ?e = "demo_env []"
  let ?mi = "\<lparr>sm_name = ''demo-skill'', sm_description = ''first'', sm_metadata = None\<rparr>"
  let ?mj = "\<lparr>sm_name = ''demo-skill'', sm_description = ''second'', sm_metadata = None\<rparr>"
  obtain m st' where d: "doLoadSkills ?e init_state = (Inr m, st')"
    using doLoadSkills_Inr by blast
  have h1: "readdir ?e (skillsDir ?e) = Some demo_entries"
    by (simp add: demo_env_def demo_readdir_def)
  have h2: "(0::nat) < 1" by simp
  have h3: "1 < length (skill_dirs ?e demo_entries)" by code_simp
  have p0: "skill_dirs ?e demo_entries ! 0 = ''/skills/a''" by code_simp
  have p1: "skill_dirs ?e demo_entries ! 1 = ''/skills/b''" by code_simp
  have h4: "manifest_of ?e (skill_dirs ?e demo_entries ! 0) = Some (?mi, ''Hello from a'')"
    by code_simp
  have h5: "manifest_of ?e (skill_dirs ?e demo_entries ! 1) = Some (?mj, ''Hello from b'')"
    by code_simp
  have h6: "sm_name ?mj = sm_name ?mi" by simp
  have h7: "\<forall>k<0. \<not> yields ?e (sm_name ?mi) (skill_dirs ?e demo_entries ! k)" by simp
  have ne: "skill_dirs ?e demo_entries ! 1 \<noteq> skill_dirs ?e demo_entries ! 0"
    unfolding p0 p1 by simp
  note t = doLoadSkills_first_directory_wins [OF h1 h2 h3 h4 h5 h6 h7 d]
  from t have c1: "m ''demo-skill'' = Some (skill_of ?e (skill_dirs ?e demo_entries ! 0) ?mi)"
    by simp
  from t have c2: "skillContentCache st' (cache_key ''demo-skill'' SKILL_MAIN_FILE)
      = Some ''Hello from a''"
    by simp
  from t ne have c3: "\<forall>n sk. m n = Some sk \<longrightarrow> path sk \<noteq> skill_dirs ?e demo_entries ! 1"
    by blast
  from t have c4: "dom (skillContentCache st') = (\<lambda>n. cache_key n SKILL_MAIN_FILE) ` dom m"
    by blast
  from h1 h2 h3 p0 p1 h4 h5 d c1 c2 c3 c4 show ?thesis by blast
qed

subsection \<open>Reading after a load\<close>

lemma validateSkillPath_main: "validateSkillPath SKILL_MAIN_FILE = Valid"
  unfolding SKILL_MAIN_FILE_def by code_simp

lemma loadSkills_pass:
  assumes "force \<or> skillMapPromise st = None"
    and "loadSkills e force st = (Inr m, st1)"
  shows "\<exists>st'. doLoadSkills e st = (Inr m, st') \<and> st1 = st'\<lparr>skillMapPromise := Some m\<rparr>"
proof -
  obtain m' st' where d: "doLoadSkills e st = (Inr m', st')"
    using doLoadSkills_Inr by blast
  with assms show ?thesis
    by (auto simp: loadSkills_def loadSkills_with_def split: option.splits if_splits)
qed

lemma viewSkillContent_hit:
  assumes "skillMapPromise st = Some m" and "m n = Some sk"
    and "validateSkillPath p = Valid" and "p \<in> set (availableFiles sk)"
    and "skillContentCache st (n @ ''/'' @ p) = Some c" and "c \<noteq> []"
  shows "viewSkillContent e n p st = (Inr c, emit [CacheGet (n @ ''/'' @ p)] st)"
  using assms by (simp add: viewSkillContent_def loadSkills_cached Let_def)

lemma viewSkillContent_miss:
  assumes "skillMapPromise st = Some m" and "m n = Some sk"
    and "validateSkillPath p = Valid" and "p \<in> set (availableFiles sk)"
    and "skillContentCache st (n @ ''/'' @ p) = Some []"
    and "readFile e (join_path (path sk) p) = Some raw"
  shows "fst (viewSkillContent e n p st) = Inr raw"
    and "trace (snd (viewSkillContent e n p st))
         = trace st @ [CacheGet (n @ ''/'' @ p), ReadFile (join_path (path sk) p),
                       CacheSet (n @ ''/'' @ p)]"
  using assms by (simp_all add: viewSkillContent_def loadSkills_cached read_through_def Let_def)

lemma viewSkillContent_Inr:
  assumes "viewSkillContent e n p st = (Inr c, st1)"
  shows "\<exists>m sk. skillMapPromise st1 = Some m \<and> m n = Some sk \<and> validateSkillPath p = Valid
           \<and> p \<in> set (availableFiles sk) \<and> skillContentCache st1 (n @ ''/'' @ p) = Some c"
proof -
  obtain m s1 where l: "loadSkills e False st = (Inr m, s1)"
    using loadSkills_with_Inr unfolding loadSkills_def by blast
  then have pr: "skillMapPromise s1 = Some m" by (rule loadSkills_promise)
  from assms l pr show ?thesis
    by (auto simp: viewSkillContent_def read_through_def Let_def
        split: option.splits validation.splits if_splits)
qed

lemma viewSkillContent_second_read:
  assumes "viewSkillContent e n p st = (Inr c, st1)" and "c \<noteq> []"
  shows "viewSkillContent e' n p st1 = (Inr c, emit [CacheGet (n @ ''/'' @ p)] st1)"
    and "storage_reads (snd (viewSkillContent e' n p st1)) = storage_reads st1"
proof -
  from viewSkillContent_Inr [OF assms(1)] obtain m sk
    where "skillMapPromise st1 = Some m" "m n = Some sk" "validateSkillPath p = Valid"
      "p \<in> set (availableFiles sk)" "skillContentCache st1 (n @ ''/'' @ p) = Some c"
    by blast
  then show "viewSkillContent e' n p st1 = (Inr c, emit [CacheGet (n @ ''/'' @ p)] st1)"
    using assms(2) by (rule viewSkillContent_hit)
  then show "storage_reads (snd (viewSkillContent e' n p st1)) = storage_reads st1"
    by (simp add: storage_reads_def is_storage_access_def)
qed

text \<open>
  C10. For every skill \<open>n\<close> that a load pass registered, the cache holds, under
  \<open>n/SKILL.md\<close>, the trimmed body that the front-matter library split off the skill's main
  file. When that body is not empty, a read of the main file returns it, whatever storage
  holds then, with a cache lookup and nothing else. When it is empty, the read of the main
  file goes to storage and returns the raw text of the file.
\<close>

theorem main_file_served_from_seeded_cache:
  assumes "force \<or> skillMapPromise st = None"
    and "loadSkills e force st = (Inr m, st1)"
    and "m n = Some sk"
  shows "\<exists>raw d content sm.
       readFile e (join_path (path sk) SKILL_MAIN_FILE) = Some raw
     \<and> matter e raw = Some (d, content)
     \<and> parseSkillFile (unicode_lower e) (matter e) raw = Inr (sm, trim content) \<and> sm_name sm = n
     \<and> skillContentCache st1 (n @ ''/'' @ SKILL_MAIN_FILE) = Some (trim content)
     \<and> (trim content \<noteq> [] \<longrightarrow>
          (\<forall>e'. viewSkillContent e' n SKILL_MAIN_FILE st1
                = (Inr (trim content), emit [CacheGet (n @ ''/'' @ SKILL_MAIN_FILE)] st1)))
     \<and> (trim content = [] \<longrightarrow>
          fst (viewSkillContent e n SKILL_MAIN_FILE st1) = Inr raw
          \<and> trace (snd (viewSkillContent e n SKILL_MAIN_FILE st1))
            = trace st1 @ [CacheGet (n @ ''/'' @ SKILL_MAIN_FILE),
                           ReadFile (join_path (path sk) SKILL_MAIN_FILE),
                           CacheSet (n @ ''/'' @ SKILL_MAIN_FILE)])"
proof -
  from loadSkills_pass [OF assms(1,2)] obtain st'
    where d: "doLoadSkills e st = (Inr m, st')" and st1: "st1 = st'\<lparr>skillMapPromise := Some m\<rparr>"
    by blast
  have ok: "registry_ok e m (skillContentCache st')"
    using d by (rule doLoadSkills_registry_ok)
  with assms(3) obtain sm body
    where man: "manifest_of e (path sk) = Some (sm, body)" and nm: "sm_name sm = n"
      and sk: "sk = skill_of e (path sk) sm"
      and c: "skillContentCache st' (cache_key n SKILL_MAIN_FILE) = Some body"
    unfolding registry_ok_def by blast
  from man obtain raw where raw: "readFile e (join_path (path sk) SKILL_MAIN_FILE) = Some raw"
    and parse: "parseSkillFile (unicode_lower e) (matter e) raw = Inr (sm, body)"
    by (auto simp: manifest_of_def split: option.splits sum.splits)
  from parse obtain d0 content where mt: "matter e raw = Some (d0, content)"
    and body: "body = trim content"
    by (auto simp: parseSkillFile_def split: option.splits sum.splits)
  have pr: "skillMapPromise st1 = Some m" by (simp add: st1)
  have c1: "skillContentCache st1 (n @ ''/'' @ SKILL_MAIN_FILE) = Some (trim content)"
    using c body by (simp add: st1 cache_key_def)
  have files: "SKILL_MAIN_FILE \<in> set (availableFiles sk)"
    by (subst sk) (simp add: skill_of_def)
  have hit: "viewSkillContent e' n SKILL_MAIN_FILE st1
      = (Inr (trim content), emit [CacheGet (n @ ''/'' @ SKILL_MAIN_FILE)] st1)"
    if "trim content \<noteq> []" for e'
    using pr assms(3) validateSkillPath_main files c1 that by (rule viewSkillContent_hit)
  have miss: "fst (viewSkillContent e n SKILL_MAIN_FILE st1) = Inr raw
      \<and> trace (snd (viewSkillContent e n SKILL_MAIN_FILE st1))
            = trace st1 @ [CacheGet (n @ ''/'' @ SKILL_MAIN_FILE),
                           ReadFile (join_path (path sk) SKILL_MAIN_FILE),
                           CacheSet (n @ ''/'' @ SKILL_MAIN_FILE)]"
    if e: "trim content = []"
  proof -
    from c1 e have "skillContentCache st1 (n @ ''/'' @ SKILL_MAIN_FILE) = Some []" by simp
    from viewSkillContent_miss [OF pr assms(3) validateSkillPath_main files this raw]
    show ?thesis by simp
  qed
  from raw mt parse body nm c1 hit miss show ?thesis by blast
qed

theorem main_file_served_from_seeded_cache_witness:
  "\<exists>m st1 ska skc.
     (False \<or> skillMapPromise init_state = None)
     \<and> loadSkills (demo_env []) False init_state = (Inr m, st1)
     \<and> m ''demo-skill'' = Some ska \<and> m ''bare'' = Some skc
     \<and> path ska = ''/skills/a'' \<and> path skc = ''/skills/c''
     \<and> trim '' Hello from a '' = ''Hello from a'' \<and> trim ''  '' = []
     \<and> viewSkillContent (demo_env []) ''demo-skill'' SKILL_MAIN_FILE st1
        = (Inr ''Hello from a'', emit [CacheGet (''demo-skill'' @ ''/'' @ SKILL_MAIN_FILE)] st1)
     \<and> fst (viewSkillContent (demo_env []) ''bare'' SKILL_MAIN_FILE st1) = Inr demo_raw_c"
proof -
  let ?e = "demo_env []"
  let ?load = "loadSkills ?e False init_state"
  have h1: "False \<or> skillMapPromise init_state = None" by (simp add: init_state_def)
  obtain m st1 where l: "?load = (Inr m, st1)"
    using loadSkills_with_Inr unfolding loadSkills_def by blast
  have "projr (fst ?load) ''demo-skill'' \<noteq> None" "projr (fst ?load) ''bare'' \<noteq> None"
    by code_simp+
  with l obtain ska skc where a: "m ''demo-skill'' = Some ska" and c: "m ''bare'' = Some skc"
    by auto
  have "path (the (projr (fst ?load) ''demo-skill'')) = ''/skills/a''"
    "path (the (projr (fst ?load) ''bare'')) = ''/skills/c''"
    by code_simp+
  with l a c have pa: "path ska = ''/skills/a''" and pc: "path skc = ''/skills/c''" by simp_all
  have ra: "readFile ?e (join_path ''/skills/a'' SKILL_MAIN_FILE) = Some demo_raw_a"
    and rc: "readFile ?e (join_path ''/skills/c'' SKILL_MAIN_FILE) = Some demo_raw_c"
    by code_simp+
  have ma: "matter ?e demo_raw_a = Some (\<lparr>fm_name = Some (units ''Demo Skill''),
      fm_description = Some ''first'', fm_metadata = NoMetadata\<rparr>, '' Hello from a '')"
    and mc: "matter ?e demo_raw_c = Some (\<lparr>fm_name = Some (units ''bare''),
      fm_description = Some ''no body'', fm_metadata = NoMetadata\<rparr>, ''  '')"
    by code_simp+
  have ta: "trim '' Hello from a '' = ''Hello from a''" and tc: "trim ''  '' = []"
    by code_simp+
  from main_file_served_from_seeded_cache [OF h1 l a]
  have "viewSkillContent ?e ''demo-skill'' SKILL_MAIN_FILE st1
        = (Inr ''Hello from a'', emit [CacheGet (''demo-skill'' @ ''/'' @ SKILL_MAIN_FILE)] st1)"
    unfolding pa ra using ma ta by auto
  moreover from main_file_served_from_seeded_cache [OF h1 l c]
  have "fst (viewSkillContent ?e ''bare'' SKILL_MAIN_FILE st1) = Inr demo_raw_c"
    unfolding pc rc using mc tc by auto
  ultimately show ?thesis using h1 l a c pa pc ta tc by blast
qed

text \<open>
  C3 fails for a declared file whose content is the empty string: the first read of
  \<open>scripts/empty.sql\<close> succeeds with the empty string and stores it in the cache; the
  second read finds it there, takes the empty string for a miss, and reads storage once
  more. When the file has changed in between, the second read returns the new content.
  For content that is not empty, \<open>viewSkillContent_second_read\<close> above is the claim.
\<close>

theorem viewSkillContent_empty_file_read_again:
  "''scripts/empty.sql''
     \<in> set (availableFiles (the (projr (fst (doLoadSkills (demo_env []) init_state)) ''demo-skill'')))
   \<and> fst (viewSkillContent (demo_env []) ''demo-skill'' ''scripts/empty.sql'' init_state) = Inr []
   \<and> storage_reads
        (snd (viewSkillContent (demo_env []) ''demo-skill'' ''scripts/empty.sql''
               (snd (viewSkillContent (demo_env []) ''demo-skill'' ''scripts/empty.sql''
                      init_state))))
      = storage_reads
          (snd (viewSkillContent (demo_env []) ''demo-skill'' ''scripts/empty.sql'' init_state))
        + 1
   \<and> fst (viewSkillContent (demo_env ''x'') ''demo-skill'' ''scripts/empty.sql''
            (snd (viewSkillContent (demo_env []) ''demo-skill'' ''scripts/empty.sql''
                   init_state)))
      = Inr ''x''"
  by code_simp

end
